theory Spec2Isabelle
  imports Main "HOL-Library.Sublist" "HOL-Library.AList"
begin

section \<open>Python strings\<close>

text \<open>
  A Python \<open>str\<close> is a sequence of code points. The model is \<open>string\<close>, the
  lists of characters with code points below 256; every predicate below agrees with
  Python on that range.
\<close>

definition is_space :: "char \<Rightarrow> bool" where
  \<comment> \<open>\<open>str.isspace\<close> and the pattern class \<open>\s\<close>: 9-13, 28-32,
      133, 160.\<close>
  "is_space c = (let n = (of_char c :: nat) in
     (9 \<le> n \<and> n \<le> 13) \<or> (28 \<le> n \<and> n \<le> 32) \<or> n = 133 \<or> n = 160)"

definition is_word :: "char \<Rightarrow> bool" where
  \<comment> \<open>the pattern class \<open>\w\<close> of a \<open>str\<close> pattern: alphanumeric
      code points and the underscore.\<close>
  "is_word c = (let n = (of_char c :: nat) in
     (48 \<le> n \<and> n \<le> 57) \<or> (65 \<le> n \<and> n \<le> 90) \<or> n = 95 \<or> (97 \<le> n \<and> n \<le> 122)
     \<or> n = 170 \<or> n = 178 \<or> n = 179 \<or> n = 181 \<or> n = 185 \<or> n = 186
     \<or> (188 \<le> n \<and> n \<le> 190) \<or> (192 \<le> n \<and> n \<le> 214) \<or> (216 \<le> n \<and> n \<le> 246)
     \<or> (248 \<le> n \<and> n \<le> 255))"

definition strip :: "string \<Rightarrow> string" where
  \<comment> \<open>\<open>s.strip()\<close>\<close>
  "strip s = rev (dropWhile is_space (rev (dropWhile is_space s)))"

definition startswith :: "string \<Rightarrow> string \<Rightarrow> bool" where
  \<comment> \<open>\<open>s.startswith(p)\<close>\<close>
  "startswith s p = (take (length p) s = p)"

fun split_first :: "string \<Rightarrow> string \<Rightarrow> (string \<times> string) option" where
  \<comment> \<open>\<open>s.split(sep, 1)\<close> for a non-empty \<open>sep\<close>: \<open>None\<close> when \<open>sep\<close> does not occur
      in \<open>s\<close>, else the text before and after its first occurrence.\<close>
  "split_first sep [] = None"
| "split_first sep (c # cs) =
     (if startswith (c # cs) sep then Some ([], drop (length sep) (c # cs))
      else (case split_first sep cs of
              None \<Rightarrow> None
            | Some (a, b) \<Rightarrow> Some (c # a, b)))"

section \<open>The ontology tag-block reader (parse_hpo_obo.py)\<close>

definition parse_tag_value :: "string \<Rightarrow> string \<times> string" where
  "parse_tag_value line =
     (case split_first '': '' line of
        None \<Rightarrow> (line, [])
      | Some (tag, val) \<Rightarrow> (strip tag, strip val))"

definition multi_valued_tags :: "string list" where
  "multi_valued_tags =
     [''synonym'', ''xref'', ''alt_id'', ''is_a'', ''intersection_of'', ''disjoint_from'']"

type_synonym obo_term = "string \<rightharpoonup> string list"

definition append_to_last :: "string list \<Rightarrow> string \<Rightarrow> string list" where
  \<comment> \<open>\<open>vs[-1] += s\<close>. Python raises IndexError on an empty list; the lists held in a
      term are never empty (lemma \<open>term_values_nonempty\<close>), and the model leaves an
      empty list as it is.\<close>
  "append_to_last vs s = (if vs = [] then vs else butlast vs @ [last vs @ s])"

definition term_step :: "obo_term \<times> string option \<Rightarrow> string \<Rightarrow> obo_term \<times> string option" where
  \<comment> \<open>one round of the loop of \<open>parse_term_block\<close>; the state is \<open>(term,
      current_tag)\<close>.\<close>
  "term_step st line =
     (let (term, current_tag) = st in
      if strip line = [] then (term, current_tag)
      else if startswith line '' '' then
        (case current_tag of
           None \<Rightarrow> (term, current_tag)
         | Some t \<Rightarrow>
             if t \<noteq> [] then
               (case term t of
                  None \<Rightarrow> (term, current_tag)
                | Some vs \<Rightarrow> (term(t \<mapsto> append_to_last vs ('' '' @ strip line)), current_tag))
             else (term, current_tag))
      else
        (let (tag, val) = parse_tag_value line in
         if val = [] then (term, Some tag)
         else if tag \<in> set multi_valued_tags then
           (term(tag \<mapsto> (case term tag of None \<Rightarrow> [] | Some vs \<Rightarrow> vs) @ [val]), Some tag)
         else (term(tag \<mapsto> [val]), Some tag)))"

definition term_loop :: "string list \<Rightarrow> obo_term \<times> string option" where
  "term_loop body = foldl term_step (Map.empty, None) body"

definition parse_term_block :: "string list \<Rightarrow> obo_term option" where
  "parse_term_block lines =
     (case lines of
        [] \<Rightarrow> None
      | first # body \<Rightarrow>
          if \<not> startswith first ''[Term]'' then None
          else Some (fst (term_loop body)))"

definition term_lookup :: "string list \<Rightarrow> string \<Rightarrow> string list option" where
  \<comment> \<open>\<open>parse_term_block(lines).get(tag)\<close>, \<open>None\<close> also when no
      term is returned.\<close>
  "term_lookup lines tag = (case parse_term_block lines of None \<Rightarrow> None | Some term \<Rightarrow> term tag)"

text \<open>
  Lines of a block body as the loop of \<open>parse_term_block\<close> classifies them: a line whose
  stripped text is empty is skipped, a line that starts with a space is a continuation,
  any other line is read as a tag line.
\<close>

definition is_continuation :: "string \<Rightarrow> bool" where
  "is_continuation line = (strip line \<noteq> [] \<and> startswith line '' '')"

definition is_tag_line :: "string \<Rightarrow> bool" where
  "is_tag_line line = (strip line \<noteq> [] \<and> \<not> startswith line '' '')"

definition occurrences :: "string \<Rightarrow> string list \<Rightarrow> string list" where
  \<comment> \<open>the values of the value-bearing tag lines of a block body that carry tag
      \<open>t\<close>, in order.\<close>
  "occurrences t body =
     map snd (filter (\<lambda>p. fst p = t \<and> snd p \<noteq> []) (map parse_tag_value (filter is_tag_line body)))"

definition last_tag :: "string list \<Rightarrow> string option" where
  \<comment> \<open>the tag of the most recent tag line of a block body.\<close>
  "last_tag body =
     (case rev (filter is_tag_line body) of
        [] \<Rightarrow> None
      | line # _ \<Rightarrow> Some (fst (parse_tag_value line)))"

definition continuation_text :: "string list \<Rightarrow> string" where
  \<comment> \<open>\<open>" " + c1.strip() + " " + c2.strip() + ...\<close>\<close>
  "continuation_text cs = concat (map (\<lambda>c. '' '' @ strip c) cs)"

subsection \<open>The synonym decomposer\<close>

text \<open>
  \<open>extract_synonym_details\<close> applies \<open>re.match\<close> with the pattern
  \<^verbatim>\<open>"([^"]+)"\s+(\w+)(?:\s+(\w+))?\s*\[(.*?)\]\<close>.
  The classes that follow one another in the pattern are disjoint (a quote ends the run of
  non-quotes, \<open>\w\<close> and \<open>\s\<close> share no character, the bracket is in neither), so the
  backtracking matcher can only succeed with every greedy run taken whole, and the lazy
  \<open>(.*?)\<close> ends at the first closing bracket, which no line feed may precede because
  \<open>.\<close> does not match it. The match is therefore read off the input from left to
  right, one piece of the pattern after the other; each piece returns what it captures
  and the input that is left.
\<close>

definition match_quoted :: "string \<Rightarrow> (string \<times> string) option" where
  \<comment> \<open>\<^verbatim>\<open>"([^"]+)"\<close>\<close>
  "match_quoted s =
     (case s of
        [] \<Rightarrow> None
      | q # r1 \<Rightarrow>
          if q \<noteq> CHR 0x22 then None
          else
            let txt = takeWhile (\<lambda>c. c \<noteq> CHR 0x22) r1;
                r2 = dropWhile (\<lambda>c. c \<noteq> CHR 0x22) r1
            in if txt = [] \<or> r2 = [] then None else Some (txt, tl r2))"

definition match_type :: "string \<Rightarrow> (string \<times> string) option" where
  \<comment> \<open>\<^verbatim>\<open>\s+(\w+)\<close>\<close>
  "match_type r3 =
     (let ws = takeWhile is_space r3;
          r4 = dropWhile is_space r3;
          ty = takeWhile is_word r4;
          r5 = dropWhile is_word r4
      in if ws = [] \<or> ty = [] then None else Some (ty, r5))"

definition match_subtype :: "string \<Rightarrow> string option \<times> string" where
  \<comment> \<open>\<^verbatim>\<open>(?:\s+(\w+))?\s*\<close>: the group takes part when a space run and a word run are
      there; when what follows then fails, no shorter choice can succeed.\<close>
  "match_subtype r5 =
     (let ws2 = takeWhile is_space r5;
          r6 = dropWhile is_space r5;
          sub = takeWhile is_word r6;
          r7 = dropWhile is_word r6
      in if ws2 \<noteq> [] \<and> sub \<noteq> [] then (Some sub, dropWhile is_space r7) else (None, r6))"

definition match_source :: "string \<Rightarrow> (string \<times> string) option" where
  \<comment> \<open>\<^verbatim>\<open>\[(.*?)\]\<close>\<close>
  "match_source r8 =
     (case r8 of
        [] \<Rightarrow> None
      | b # r9 \<Rightarrow>
          if b \<noteq> CHR ''['' then None
          else
            let src = takeWhile (\<lambda>c. c \<noteq> CHR '']'') r9;
                r10 = dropWhile (\<lambda>c. c \<noteq> CHR '']'') r9
            in if r10 = [] \<or> CHR 0x0A \<in> set src then None else Some (src, tl r10))"

definition match_synonym :: "string \<Rightarrow> (string \<times> string \<times> string option \<times> string \<times> string) option" where
  \<comment> \<open>the four groups of the match and the unmatched rest of the input, or
      \<open>None\<close>.\<close>
  "match_synonym s =
     (case match_quoted s of
        None \<Rightarrow> None
      | Some (txt, r3) \<Rightarrow>
          (case match_type r3 of
             None \<Rightarrow> None
           | Some (ty, r5) \<Rightarrow>
               (case match_subtype r5 of
                  (sub, r8) \<Rightarrow>
                    (case match_source r8 of
                       None \<Rightarrow> None
                     | Some (src, rest) \<Rightarrow> Some (txt, ty, sub, src, rest)))))"

definition extract_synonym_details :: "string \<Rightarrow> string \<times> string \<times> string" where
  "extract_synonym_details synonym =
     (case match_synonym synonym of
        None \<Rightarrow> (synonym, [], [])
      | Some (txt, syn_type, syn_subtype, source, rest) \<Rightarrow>
          let full_type = (case syn_subtype of
                             None \<Rightarrow> syn_type
                           | Some sub \<Rightarrow> if sub \<noteq> [] then syn_type @ '' '' @ sub else syn_type)
          in (strip txt, strip full_type, strip source))"

section \<open>Exceptions\<close>

text \<open>
  \<open>IndexError\<close> and \<open>ValueError\<close> are Python's; \<open>NoDisorderElements\<close> is the exception a conversion raises
  with the message "No <Disorder> elements found"; \<open>CustomException e\<close> is what the
  \<open>except Exception as e\<close> clause of a conversion raises in place of \<open>e\<close>.
\<close>

datatype error = IndexError | ValueError | NoDisorderElements | CustomException error

definition ebind :: "error + 'a \<Rightarrow> ('a \<Rightarrow> error + 'b) \<Rightarrow> error + 'b" where
  \<comment> \<open>sequencing: an exception of the first computation ends the second.\<close>
  "ebind m f = (case m of Inl e \<Rightarrow> Inl e | Inr x \<Rightarrow> f x)"

section \<open>Element trees (xml.etree.ElementTree)\<close>

text \<open>
  An \<open>Element\<close> has a tag, a dictionary of attributes, a text (\<open>elem.text\<close>, here
  \<open>elem_text\<close>) that may be \<open>None\<close>, and its
  children in document order. The parser writes the tag of a namespaced element as
  \<open>{uri}name\<close>.
\<close>

datatype element =
  Element (tag: string) (attrib: "(string \<times> string) list") (elem_text: "string option")
    (children: "element list")

definition get_attr :: "element \<Rightarrow> string \<Rightarrow> string \<Rightarrow> string" where
  \<comment> \<open>\<open>elem.get(key, default)\<close>\<close>
  "get_attr e key dflt = (case map_of (attrib e) key of None \<Rightarrow> dflt | Some v \<Rightarrow> v)"

definition text_or_empty :: "element \<Rightarrow> string" where
  \<comment> \<open>\<open>(elem.text or '')\<close>\<close>
  "text_or_empty e = (case elem_text e of None \<Rightarrow> [] | Some s \<Rightarrow> s)"

definition name_text :: "element option \<Rightarrow> string" where
  \<comment> \<open>\<open>x.text.strip() if x is not None and x.text else ''\<close>\<close>
  "name_text x = (case x of None \<Rightarrow> [] | Some e \<Rightarrow> strip (text_or_empty e))"

definition truthy :: "element option \<Rightarrow> bool" where
  \<comment> \<open>the truth value of \<open>x\<close> in \<open>x or y\<close>: \<open>None\<close> is false, and an Element is true
      exactly when it has children (\<open>Element.__len__\<close>).\<close>
  "truthy x = (case x of None \<Rightarrow> False | Some e \<Rightarrow> children e \<noteq> [])"

fun iter :: "element \<Rightarrow> element list" where
  \<comment> \<open>\<open>elem.iter()\<close>: the element and its descendants, in document order.\<close>
  "iter (Element t a x cs) = Element t a x cs # concat (map iter cs)"

fun findall :: "element \<Rightarrow> string list \<Rightarrow> element list" where
  \<comment> \<open>\<open>elem.findall('A/B/...')\<close>, the path given as the list of its steps: a step
      keeps the children whose tag is equal to it.\<close>
  "findall e [] = [e]"
| "findall e (n # ns) = concat (map (\<lambda>c. findall c ns) (filter (\<lambda>c. tag c = n) (children e)))"

definition find :: "element \<Rightarrow> string list \<Rightarrow> element option" where
  \<comment> \<open>\<open>elem.find('A/B/...')\<close>: the first element of \<open>findall\<close>, or
      \<open>None\<close>.\<close>
  "find e path = (case findall e path of [] \<Rightarrow> None | x # _ \<Rightarrow> Some x)"

definition findall_descendants :: "element \<Rightarrow> string \<Rightarrow> element list" where
  \<comment> \<open>\<open>root.findall('.//name')\<close>: the descendants of \<open>root\<close>, itself excluded, whose tag
      is equal to \<open>name\<close>.\<close>
  "findall_descendants root name = filter (\<lambda>e. tag e = name) (concat (map iter (children root)))"

fun join :: "string \<Rightarrow> string list \<Rightarrow> string" where
  \<comment> \<open>\<open>sep.join(xs)\<close>\<close>
  "join sep [] = []"
| "join sep [x] = x"
| "join sep (x # y # ys) = x @ sep @ join sep (y # ys)"

subsection \<open>Tree navigation (utils/xml_utlis.py)\<close>

definition local :: "string \<Rightarrow> error + string" where
  \<comment> \<open>\<open>tag.split("}", 1)[1]\<close> raises IndexError when the tag has no closing
      brace.\<close>
  "local t =
     (if t \<noteq> [] \<and> hd t = CHR ''{'' then
        (case split_first ''}'' t of None \<Rightarrow> Inl IndexError | Some (a, b) \<Rightarrow> Inr b)
      else Inr t)"

fun first_child :: "element list \<Rightarrow> string \<Rightarrow> error + element option" where
  \<comment> \<open>the loop of \<open>find_first\<close> over the children.\<close>
  "first_child [] name = Inr None"
| "first_child (c # cs) name =
     (case local (tag c) of
        Inl e \<Rightarrow> Inl e
      | Inr l \<Rightarrow> if l = name then Inr (Some c) else first_child cs name)"

definition find_first :: "element option \<Rightarrow> string \<Rightarrow> error + element option" where
  "find_first parent name =
     (case parent of None \<Rightarrow> Inr None | Some p \<Rightarrow> first_child (children p) name)"

definition find_text :: "element option \<Rightarrow> string \<Rightarrow> string \<Rightarrow> error + string" where
  "find_text parent name dflt =
     ebind (find_first parent name) (\<lambda>node.
       case node of
         None \<Rightarrow> Inr dflt
       | Some n \<Rightarrow> if text_or_empty n \<noteq> [] then Inr (strip (text_or_empty n)) else Inr dflt)"

fun lang_child :: "element list \<Rightarrow> string \<Rightarrow> string \<Rightarrow> string \<Rightarrow> error + string" where
  \<comment> \<open>the loop of \<open>find_text_lang\<close> over the children.\<close>
  "lang_child [] name lang dflt = Inr dflt"
| "lang_child (c # cs) name lang dflt =
     (case local (tag c) of
        Inl e \<Rightarrow> Inl e
      | Inr l \<Rightarrow>
          if l = name \<and> (map_of (attrib c) ''lang'' = None \<or> map_of (attrib c) ''lang'' = Some lang)
          then Inr (strip (text_or_empty c))
          else lang_child cs name lang dflt)"

definition find_text_lang :: "element \<Rightarrow> string \<Rightarrow> string \<Rightarrow> string \<Rightarrow> error + string" where
  \<comment> \<open>every caller passes an element, so the \<open>parent is None\<close> exit of the source, the
      only one that returns \<open>None\<close>, is left out.\<close>
  "find_text_lang parent name lang dflt = lang_child (children parent) name lang dflt"

text \<open>
  A row is a Python dictionary from column names to strings: an association list in
  insertion order, where \<open>d[k] = v\<close> is \<open>AList.update k v d\<close> (the value replaced in
  place, or the pair appended) and \<open>d.get(k)\<close> is \<open>map_of d k\<close>.
\<close>

type_synonym row = "(string \<times> string) list"


section \<open>The streaming link parser (parse_orpha_xml4.py)\<close>

record link_row =
  start_orpha_id :: string
  end_hp_id :: string
  frequency :: string

definition ascii_upper :: "string \<Rightarrow> string" where
  \<comment> \<open>\<open>s.upper()\<close> on a string of ASCII characters.\<close>
  "ascii_upper s =
     map (\<lambda>c. if 97 \<le> (of_char c :: nat) \<and> (of_char c :: nat) \<le> 122
               then char_of ((of_char c :: nat) - 32) else c) s"

definition normalize_hp :: "(string \<Rightarrow> string) \<Rightarrow> string \<Rightarrow> string" where
  \<comment> \<open>\<open>upper\<close> stands for \<open>str.upper\<close>, whose results on non-ASCII letters can lie
      outside the code points of the model; it is a parameter of the parser.\<close>
  "normalize_hp upper hp =
     (if hp = [] then hp else upper (map (\<lambda>c. if c = CHR ''_'' then CHR '':'' else c) hp))"

definition or_text :: "error + string \<Rightarrow> error + string \<Rightarrow> error + string" where
  \<comment> \<open>\<open>a or b\<close> on strings: \<open>b\<close> is evaluated only when
      \<open>a\<close> is empty.\<close>
  "or_text a b = ebind a (\<lambda>x. if x \<noteq> [] then Inr x else b)"

definition resolve_orpha :: "element \<Rightarrow> error + string option" where
  "resolve_orpha elem =
     ebind (find_first (Some elem) ''Disorder'') (\<lambda>dis.
       case dis of
         None \<Rightarrow> Inr None
       | Some d \<Rightarrow>
           ebind (or_text (find_text dis ''OrphaNumber'' []) (find_text dis ''OrphaCode'' []))
             (\<lambda>orpha. Inr (Some orpha)))"

definition resolve_hp_id :: "element \<Rightarrow> error + string option" where
  "resolve_hp_id elem =
     ebind (find_first (Some elem) ''HPO'') (\<lambda>hpo_block.
       case hpo_block of
         None \<Rightarrow> Inr None
       | Some h \<Rightarrow>
           ebind (or_text (find_text hpo_block ''HPOId'' [])
                   (or_text (find_text hpo_block ''HPO_ID'' [])
                     (or_text (find_text hpo_block ''Id'' []) (find_text hpo_block ''ID'' []))))
             (\<lambda>hp_id. Inr (Some hp_id)))"

definition resolve_freq :: "element \<Rightarrow> error + string option" where
  "resolve_freq elem =
     ebind (ebind (find_first (Some elem) ''Frequency'') (\<lambda>f.
              if truthy f then Inr f else find_first (Some elem) ''HPOFrequency'')) (\<lambda>freq_block.
       case freq_block of
         None \<Rightarrow> Inr None
       | Some b \<Rightarrow>
           ebind (find_text freq_block ''Name'' []) (\<lambda>n.
             Inr (Some (if n \<noteq> [] then n else strip (text_or_empty b)))))"

definition link_of :: "(string \<Rightarrow> string) \<Rightarrow> element \<Rightarrow> error + link_row option" where
  \<comment> \<open>the body of the loop for an element whose local tag is DisorderHPOTermAssociation:
      the row it writes, if any.\<close>
  "link_of upper elem =
     ebind (resolve_orpha elem) (\<lambda>orpha.
     ebind (resolve_hp_id elem) (\<lambda>hp_id.
     ebind (resolve_freq elem) (\<lambda>freq.
       if orpha \<noteq> None \<and> orpha \<noteq> Some [] \<and> hp_id \<noteq> None \<and> hp_id \<noteq> Some [] then
         Inr (Some \<lparr>start_orpha_id = ''ORPHA:'' @ the orpha,
                    end_hp_id = normalize_hp upper (the hp_id),
                    frequency = (case freq of None \<Rightarrow> [] | Some f \<Rightarrow> f)\<rparr>)
       else Inr None)))"

definition clear :: "element \<Rightarrow> element" where
  \<comment> \<open>\<open>elem.clear()\<close> drops the attributes, the text and the children; the element
      itself stays where it is in the tree.\<close>
  "clear e = Element (tag e) [] None []"

definition end_event :: "(string \<Rightarrow> string) \<Rightarrow> element \<Rightarrow> error + (link_row list \<times> element)" where
  \<comment> \<open>one round of the loop over the \<open>end\<close> events: the rows written and the element as
      the round leaves it in memory.\<close>
  "end_event upper elem =
     ebind (local (tag elem)) (\<lambda>l.
       if l = ''DisorderHPOTermAssociation'' then
         ebind (link_of upper elem) (\<lambda>r.
           Inr ((case r of None \<Rightarrow> [] | Some x \<Rightarrow> [x]), clear elem))
       else Inr ([], elem))"

text \<open>
  \<open>ET.iterparse(xml_path, events=("end",))\<close> hands out each element when its end tag is
  read, so after all of its descendants, and the element handed out holds its children as
  the earlier rounds left them. \<open>stream\<close> runs the loop over the events of one subtree.
\<close>

fun stream :: "(string \<Rightarrow> string) \<Rightarrow> element \<Rightarrow> error + (link_row list \<times> element)"
  and stream_list :: "(string \<Rightarrow> string) \<Rightarrow> element list \<Rightarrow> error + (link_row list \<times> element list)"
where
  "stream upper (Element t a x cs) =
     (case stream_list upper cs of
        Inl e \<Rightarrow> Inl e
      | Inr (rows, cs') \<Rightarrow>
          (case end_event upper (Element t a x cs') of
             Inl e \<Rightarrow> Inl e
           | Inr (new, elem') \<Rightarrow> Inr (rows @ new, elem')))"
| "stream_list upper [] = Inr ([], [])"
| "stream_list upper (c # cs) =
     (case stream upper c of
        Inl e \<Rightarrow> Inl e
      | Inr (rows, c') \<Rightarrow>
          (case stream_list upper cs of
             Inl e \<Rightarrow> Inl e
           | Inr (later, cs') \<Rightarrow> Inr (rows @ later, c' # cs')))"

definition convert_xml4 :: "(string \<Rightarrow> string) \<Rightarrow> element \<Rightarrow> error + (link_row list \<times> element)" where
  \<comment> \<open>\<open>convert\<close> on a document with root \<open>root\<close>: the rows written after the header and
      the tree held in memory when the loop ends, or the exception raised.\<close>
  "convert_xml4 upper root =
     (case stream upper root of Inl e \<Rightarrow> Inl (CustomException e) | Inr r \<Rightarrow> Inr r)"

section \<open>The gene-association flattener (parse_orpha_xml6.py)\<close>

definition synonym_texts :: "element \<Rightarrow> string list" where
  \<comment> \<open>\<open>[s.text.strip() for s in elem.findall('SynonymList/Synonym') if
      s.text]\<close>\<close>
  "synonym_texts e =
     map (\<lambda>s. strip (text_or_empty s))
       (filter (\<lambda>s. text_or_empty s \<noteq> []) (findall e [''SynonymList'', ''Synonym'']))"











definition wf_tag :: "string \<Rightarrow> bool" where
  \<comment> \<open>a tag as the parser writes it: a name, or \<open>{uri}name\<close>.\<close>
  "wf_tag t = (t = [] \<or> hd t \<noteq> CHR ''{'' \<or> CHR ''}'' \<in> set t)"

definition wf_tree :: "element \<Rightarrow> bool" where
  "wf_tree e = list_all (\<lambda>x. wf_tag (tag x)) (iter e)"

section \<open>The single-entity flattener (parse_orpha_xml1.py)\<close>

definition get_child_text :: "element option \<Rightarrow> string \<Rightarrow> string option \<Rightarrow> string" where
  "get_child_text parent name lang =
     (case parent of
        None \<Rightarrow> []
      | Some p \<Rightarrow>
          (case filter (\<lambda>c. lang = None \<or> map_of (attrib c) ''lang'' = lang) (findall p [name]) of
             [] \<Rightarrow> []
           | c # _ \<Rightarrow> strip (text_or_empty c)))"

definition external_pairs :: "element \<Rightarrow> string list" where
  "external_pairs e =
     map (\<lambda>p. fst p @ '':'' @ snd p)
       (filter (\<lambda>p. fst p \<noteq> [] \<or> snd p \<noteq> [])
         (map (\<lambda>ext. (get_child_text (Some ext) ''Source'' None,
                       get_child_text (Some ext) ''Reference'' None))
           (findall e [''ExternalReferenceList'', ''ExternalReference''])))"

definition definition_text :: "element \<Rightarrow> string" where
  "definition_text e =
     (case find e [''SummaryInformationList'', ''SummaryInformation''] of
        None \<Rightarrow> []
      | Some si \<Rightarrow>
          (case find si [''TextSectionList'', ''TextSection'', ''Contents''] of
             None \<Rightarrow> name_text (find si [''TextAuto'', ''Info''])
           | Some ts \<Rightarrow>
               if text_or_empty ts \<noteq> [] then strip (text_or_empty ts)
               else name_text (find si [''TextAuto'', ''Info''])))"

definition parse_disorder_xml1 :: "element \<Rightarrow> row" where
  "parse_disorder_xml1 e =
     [(''id'', get_attr e ''id'' []),
      (''OrphaCode'', get_child_text (Some e) ''OrphaCode'' None),
      (''ExpertLink'', get_child_text (Some e) ''ExpertLink'' (Some ''en'')),
      (''Name'', get_child_text (Some e) ''Name'' (Some ''en'')),
      (''Synonyms'', join ''; '' (synonym_texts e)),
      (''DisorderType'', name_text (find e [''DisorderType'', ''Name''])),
      (''DisorderGroup'', name_text (find e [''DisorderGroup'', ''Name''])),
      (''ExternalReferences'', join ''; '' (external_pairs e)),
      (''Definition'', definition_text e)]"

definition xml1_fieldnames :: "string list" where
  "xml1_fieldnames =
     [''id'', ''OrphaCode'', ''Name'', ''ExpertLink'', ''Synonyms'', ''DisorderType'',
      ''DisorderGroup'', ''ExternalReferences'', ''Definition'']"

definition writerow :: "string list \<Rightarrow> row \<Rightarrow> error + string list" where
  \<comment> \<open>\<open>csv.DictWriter(f, fieldnames).writerow(row)\<close>: ValueError when the row has a key
      that is no field name, else the cells written, one per field name, empty for a
      field the row lacks.\<close>
  "writerow fieldnames r =
     (if list_all (\<lambda>k. k \<in> set fieldnames) (map fst r)
      then Inr (map (\<lambda>f. case map_of r f of None \<Rightarrow> [] | Some v \<Rightarrow> v) fieldnames)
      else Inl ValueError)"

fun write_disorders :: "element list \<Rightarrow> error + string list list" where
  \<comment> \<open>\<open>for d in disorders: writer.writerow(parse_disorder(d))\<close>\<close>
  "write_disorders [] = Inr []"
| "write_disorders (d # ds) =
     ebind (writerow xml1_fieldnames (parse_disorder_xml1 d)) (\<lambda>cells.
     ebind (write_disorders ds) (\<lambda>later. Inr (cells # later)))"

definition convert_xml1 :: "element \<Rightarrow> error + string list list" where
  \<comment> \<open>\<open>convert\<close> on a document with root \<open>root\<close>: the rows written after the header, or
      the exception raised; the output file is opened only after the check for disorders.\<close>
  "convert_xml1 root =
     (let disorders = findall_descendants root ''Disorder'' in
      if disorders = [] then Inl (CustomException NoDisorderElements)
      else (case write_disorders disorders of
              Inl e \<Rightarrow> Inl (CustomException e)
            | Inr written \<Rightarrow> Inr written))"

section \<open>The annotation-file reader (parse_phenotype_hpoa.py)\<close>

fun split_all :: "char \<Rightarrow> string \<Rightarrow> string list" where
  \<comment> \<open>\<open>s.split(sep)\<close> for a separator of one character.\<close>
  "split_all sep [] = [[]]"
| "split_all sep (c # cs) =
     (if c = sep then [] # split_all sep cs
      else (case split_all sep cs of
              [] \<Rightarrow> [[c]]
            | x # xs \<Rightarrow> (c # x) # xs))"

definition strip_quotes :: "string \<Rightarrow> string" where
  \<comment> \<open>\<open>s.strip('"')\<close>\<close>
  "strip_quotes s =
     rev (dropWhile (\<lambda>c. c = CHR 0x22) (rev (dropWhile (\<lambda>c. c = CHR 0x22) s)))"

fun parse_metadata_loop :: "string list \<Rightarrow> row \<Rightarrow> row" where
  "parse_metadata_loop [] metadata = metadata"
| "parse_metadata_loop (line # lines) metadata =
     (if \<not> startswith line ''#'' then metadata
      else (case split_first '':'' (drop 1 line) of
              None \<Rightarrow> parse_metadata_loop lines metadata
            | Some (key, val) \<Rightarrow>
                parse_metadata_loop lines
                  (AList.update (strip key) (strip_quotes (strip val)) metadata)))"

definition parse_metadata :: "string list \<Rightarrow> row" where
  "parse_metadata lines = parse_metadata_loop lines []"

definition hpoa_fieldnames :: "string list" where
  "hpoa_fieldnames =
     [''database_id'', ''disease_name'', ''qualifier'', ''hpo_id'', ''reference'', ''evidence'',
      ''onset'', ''frequency'', ''sex'', ''modifier'', ''aspect'', ''biocuration'']"

definition parse_hpoa_line :: "string \<Rightarrow> row option" where
  \<comment> \<open>unpacking into twelve names raises ValueError for any other number of fields; the
      function catches it, logs a warning and returns \<open>None\<close>.\<close>
  "parse_hpoa_line line =
     (let fields = split_all (CHR 0x09) (strip line) in
      if length fields = 12 then Some (zip hpoa_fieldnames fields) else None)"

record hpoa_output =
  metadata :: row
  rows :: "row list"
  total_rows :: nat
  valid_rows :: nat

fun data_start_loop :: "string list \<Rightarrow> nat \<Rightarrow> nat" where
  \<comment> \<open>the loop that finds the first line that does not start with \<open>#\<close>;
      \<open>data_start\<close>
      stays 0 when there is none.\<close>
  "data_start_loop [] i = 0"
| "data_start_loop (line # lines) i =
     (if \<not> startswith line ''#'' then i else data_start_loop lines (Suc i))"

definition annotation_step :: "row list \<times> nat \<times> nat \<Rightarrow> string \<Rightarrow> row list \<times> nat \<times> nat" where
  \<comment> \<open>one round of the loop over the data lines; the state is the rows written,
      \<open>total_rows\<close> and \<open>valid_rows\<close>.\<close>
  "annotation_step st line =
     (let (written, total, valid) = st in
      case parse_hpoa_line line of
        None \<Rightarrow> (written, Suc total, valid)
      | Some r \<Rightarrow> if r \<noteq> [] then (written @ [r], Suc total, Suc valid)
                  else (written, Suc total, valid))"

definition convert_hpoa :: "string list \<Rightarrow> error + hpoa_output" where
  \<comment> \<open>\<open>convert\<close> on the lines that \<open>readlines\<close> returns: the metadata and rows written
      and the two counters, or the exception raised (\<open>lines[data_start]\<close> on no lines).\<close>
  "convert_hpoa lines =
     (let md = parse_metadata lines;
          data_start = data_start_loop lines 0
      in if length lines \<le> data_start then Inl (CustomException IndexError)
         else
           (let (written, total, valid) = foldl annotation_step ([], 0, 0) (drop (Suc data_start) lines)
            in Inr \<lparr>metadata = md, rows = written, total_rows = total, valid_rows = valid\<rparr>))"

definition twelve_fields :: "string \<Rightarrow> bool" where
  \<comment> \<open>the text of a line, its line feed apart, splits into exactly twelve tab-separated
      fields.\<close>
  "twelve_fields line =
     (length (split_all (CHR 0x09) (if line \<noteq> [] \<and> last line = CHR 0x0A then butlast line else line)) = 12)"

definition twelve_fields_stripped :: "string \<Rightarrow> bool" where
  \<comment> \<open>the stripped text of a line splits into exactly twelve tab-separated fields.\<close>
  "twelve_fields_stripped line = (length (split_all (CHR 0x09) (strip line)) = 12)"

section \<open>Auxiliary notions for the properties\<close>

definition occ_of_line :: "string \<Rightarrow> string \<Rightarrow> string list" where
  \<comment> \<open>what one line adds to \<open>occurrences t\<close>.\<close>
  "occ_of_line t l =
     (if is_tag_line l \<and> fst (parse_tag_value l) = t \<and> snd (parse_tag_value l) \<noteq> []
      then [snd (parse_tag_value l)] else [])"

fun term_inv :: "string \<Rightarrow> string list \<Rightarrow> string list option \<Rightarrow> bool" where
  \<comment> \<open>the loop invariant of \<open>parse_term_block\<close> for the entry of tag \<open>t\<close>, given the
      occurrences \<open>os\<close> of \<open>t\<close> read so far.\<close>
  "term_inv t os None = (os = [])"
| "term_inv t os (Some vs) =
     (vs \<noteq> [] \<and>
      (if t \<in> set multi_valued_tags then list_all2 prefix os vs
       else os \<noteq> [] \<and> (\<exists>v. vs = [v] \<and> prefix (last os) v)))"

definition exact_entry :: "string \<Rightarrow> string list \<Rightarrow> string list option" where
  \<comment> \<open>the entry of tag \<open>t\<close> in a block without continuation lines.\<close>
  "exact_entry t os =
     (if os = [] then None else Some (if t \<in> set multi_valued_tags then os else [last os]))"

definition extend_entry :: "obo_term \<Rightarrow> string option \<Rightarrow> string \<Rightarrow> obo_term" where
  \<comment> \<open>the term after continuation text \<open>s\<close> has been added under the current
      tag.\<close>
  "extend_entry tm cur s =
     (case cur of
        None \<Rightarrow> tm
      | Some t \<Rightarrow>
          if t = [] then tm
          else (case tm t of
                  None \<Rightarrow> tm
                | Some vs \<Rightarrow> tm(t \<mapsto> butlast vs @ [last vs @ s])))"

definition synonym_string ::
  "string \<Rightarrow> string \<Rightarrow> string \<Rightarrow> (string \<times> string) option \<Rightarrow> string \<Rightarrow> string \<Rightarrow> string \<Rightarrow> string" where
  \<comment> \<open>a string of the shape the pattern describes: quoted text, spaces, type token, an
      optional subtype (spaces and a token), optional spaces, a bracketed source, and any
      trailing text.\<close>
  "synonym_string txt ws1 ty sub ws3 src rest =
     [CHR 0x22] @ txt @ [CHR 0x22] @ ws1 @ ty
       @ (case sub of None \<Rightarrow> [] | Some (ws2, w) \<Rightarrow> ws2 @ w)
       @ ws3 @ ''['' @ src @ '']'' @ rest"

definition synonym_parts_ok ::
  "string \<Rightarrow> string \<Rightarrow> string \<Rightarrow> (string \<times> string) option \<Rightarrow> string \<Rightarrow> string \<Rightarrow> bool" where
  \<comment> \<open>the side conditions on the parts of \<open>synonym_string\<close>: the quoted text is not empty
      and has no quote, the tokens are non-empty runs of word characters, the gaps are
      runs of spaces (non-empty before a token), the source has no closing bracket and no
      line feed.\<close>
  "synonym_parts_ok txt ws1 ty sub ws3 src =
     (txt \<noteq> [] \<and> CHR 0x22 \<notin> set txt
      \<and> ws1 \<noteq> [] \<and> list_all is_space ws1
      \<and> ty \<noteq> [] \<and> list_all is_word ty
      \<and> (case sub of
            None \<Rightarrow> True
          | Some (ws2, w) \<Rightarrow> ws2 \<noteq> [] \<and> list_all is_space ws2 \<and> w \<noteq> [] \<and> list_all is_word w)
      \<and> list_all is_space ws3
      \<and> CHR '']'' \<notin> set src \<and> CHR 0x0A \<notin> set src)"

definition local_name :: "string \<Rightarrow> string" where
  \<comment> \<open>the local name of a tag: what \<open>local\<close> returns, and the tag itself where
      \<open>local\<close> raises.\<close>
  "local_name t = (case local t of Inl e \<Rightarrow> t | Inr l \<Rightarrow> l)"

definition child_named :: "element \<Rightarrow> string \<Rightarrow> element option" where
  \<comment> \<open>the first child with a given local name.\<close>
  "child_named e name = List.find (\<lambda>c. local_name (tag c) = name) (children e)"

definition child_text :: "element \<Rightarrow> string \<Rightarrow> string" where
  \<comment> \<open>the stripped text of the first child with a given local name, empty when there is
      none.\<close>
  "child_text e name = (case child_named e name of None \<Rightarrow> [] | Some c \<Rightarrow> strip (text_or_empty c))"

fun first_nonempty :: "string list \<Rightarrow> string" where
  \<comment> \<open>the first non-empty string of a list, empty when there is none.\<close>
  "first_nonempty [] = []"
| "first_nonempty (x # xs) = (if x \<noteq> [] then x else first_nonempty xs)"

definition spec_source_id :: "element \<Rightarrow> string" where
  \<comment> \<open>the source identifier of an association as the specification words it: under the
      Disorder child, tried as OrphaNumber, else OrphaCode.\<close>
  "spec_source_id e =
     (case child_named e ''Disorder'' of
        None \<Rightarrow> []
      | Some d \<Rightarrow> first_nonempty (map (child_text d) [''OrphaNumber'', ''OrphaCode'']))"

definition spec_target_id :: "element \<Rightarrow> string" where
  \<comment> \<open>the target identifier as the specification words it: under the HPO child, tried as
      HPOId, else HPO_ID, else Id, else ID.\<close>
  "spec_target_id e =
     (case child_named e ''HPO'' of
        None \<Rightarrow> []
      | Some h \<Rightarrow> first_nonempty (map (child_text h) [''HPOId'', ''HPO_ID'', ''Id'', ''ID'']))"

definition code_freq_block :: "element \<Rightarrow> element option" where
  \<comment> \<open>\<open>freq_block\<close> as the code computes it on parser-written tags: in
      \<open>find_first(elem, "Frequency") or find_first(elem, "HPOFrequency")\<close> a Frequency
      child counts only when it has children of its own (the truth value of an Element).\<close>
  "code_freq_block e =
     (case child_named e ''Frequency'' of
        None \<Rightarrow> child_named e ''HPOFrequency''
      | Some f \<Rightarrow> if children f \<noteq> [] then Some f else child_named e ''HPOFrequency'')"

definition code_frequency :: "element \<Rightarrow> string" where
  \<comment> \<open>\<open>freq or ""\<close> as the code computes it: the Name of \<open>freq_block\<close>, else its
      own text, else empty.\<close>
  "code_frequency e =
     (case code_freq_block e of
        None \<Rightarrow> []
      | Some f \<Rightarrow> first_nonempty [child_text f ''Name'', strip (text_or_empty f)])"

definition code_link :: "(string \<Rightarrow> string) \<Rightarrow> element \<Rightarrow> link_row option" where
  \<comment> \<open>the row the code writes for an association on parser-written tags, if any.\<close>
  "code_link upper e =
     (if spec_source_id e \<noteq> [] \<and> spec_target_id e \<noteq> [] then
        Some \<lparr>start_orpha_id = ''ORPHA:'' @ spec_source_id e,
              end_hp_id = upper (map (\<lambda>c. if c = CHR ''_'' then CHR '':'' else c) (spec_target_id e)),
              frequency = code_frequency e\<rparr>
      else None)"

definition spec_qualifier :: "element \<Rightarrow> string \<Rightarrow> string" where
  \<comment> \<open>the frequency qualifier under the child with a given local name: its Name, else
      its own text, empty when the child is absent.\<close>
  "spec_qualifier e name =
     (case child_named e name of
        None \<Rightarrow> []
      | Some f \<Rightarrow> first_nonempty [child_text f ''Name'', strip (text_or_empty f)])"

definition spec_frequency :: "element \<Rightarrow> string" where
  \<comment> \<open>the frequency qualifier as the specification words it: the candidate tag names
      Frequency and HPOFrequency tried in this order, empty when none resolves.\<close>
  "spec_frequency e = first_nonempty (map (spec_qualifier e) [''Frequency'', ''HPOFrequency''])"

definition spec_link :: "(string \<Rightarrow> string) \<Rightarrow> element \<Rightarrow> link_row option" where
  \<comment> \<open>the row the specification asks for: present when both identifiers are non-empty.\<close>
  "spec_link upper e =
     (if spec_source_id e \<noteq> [] \<and> spec_target_id e \<noteq> [] then
        Some \<lparr>start_orpha_id = ''ORPHA:'' @ spec_source_id e,
              end_hp_id = upper (map (\<lambda>c. if c = CHR ''_'' then CHR '':'' else c) (spec_target_id e)),
              frequency = spec_frequency e\<rparr>
      else None)"

definition frequency_text_association :: element where
  \<comment> \<open>an association whose Frequency child carries its qualifier as text and has no
      child of its own.\<close>
  "frequency_text_association = Element ''DisorderHPOTermAssociation'' [] None
     [Element ''Disorder'' [(''id'', ''17601'')] None [Element ''OrphaCode'' [] (Some ''166024'') []],
      Element ''HPO'' [] None [Element ''HPOId'' [] (Some ''HP_0001250'') []],
      Element ''Frequency'' [] (Some ''Frequent'') []]"

definition frequency_text_document :: element where
  \<comment> \<open>a document with this association alone.\<close>
  "frequency_text_document = Element ''JDBOR'' [] None [frequency_text_association]"

definition wf_children :: "element \<Rightarrow> bool" where
  \<comment> \<open>the tags of the children are as the parser writes them.\<close>
  "wf_children e = list_all (\<lambda>c. wf_tag (tag c)) (children e)"

definition wf_two_levels :: "element \<Rightarrow> bool" where
  \<comment> \<open>the tags of the children and grandchildren are as the parser writes them.\<close>
  "wf_two_levels e = (wf_children e \<and> list_all wf_children (children e))"

definition is_association :: "element \<Rightarrow> bool" where
  \<comment> \<open>the element is one the loop inspects.\<close>
  "is_association e = (local_name (tag e) = ''DisorderHPOTermAssociation'')"

fun released :: "element \<Rightarrow> element" where
  \<comment> \<open>the element as the loop leaves it in memory once its end event and those of its
      descendants are past.\<close>
  "released (Element t a x cs) =
     (if local_name t = ''DisorderHPOTermAssociation'' then Element t [] None []
      else Element t a x (map released cs))"

fun postorder :: "element \<Rightarrow> element list" where
  \<comment> \<open>the elements of a document in the order of their end events.\<close>
  "postorder (Element t a x cs) = concat (map postorder cs) @ [Element t a x cs]"

definition code_rows :: "(string \<Rightarrow> string) \<Rightarrow> element \<Rightarrow> link_row list" where
  \<comment> \<open>the rows the code writes for a document, in the order of the end events.\<close>
  "code_rows upper root =
     concat (map (\<lambda>e. case code_link upper e of None \<Rightarrow> [] | Some r \<Rightarrow> [r])
                 (filter is_association (postorder root)))"

fun same_local :: "element \<Rightarrow> element \<Rightarrow> bool" where
  \<comment> \<open>two documents that differ only in the namespace prefixes of their tags.\<close>
  "same_local (Element t a x cs) (Element t' a' x' cs') =
     (local_name t = local_name t' \<and> a = a' \<and> x = x' \<and> list_all2 same_local cs cs')"

definition example_document :: element where
  \<comment> \<open>a document with two associations, the second without target identifier.\<close>
  "example_document = Element ''JDBOR'' [] None
     [Element ''Availability'' [] (Some ''open'') [],
      Element ''DisorderHPOTermAssociation'' [] None
        [Element ''Disorder'' [(''id'', ''17601'')] None [Element ''OrphaCode'' [] (Some ''166024'') []],
         Element ''HPO'' [] None [Element ''HPOId'' [] (Some ''HP_0001250'') []],
         Element ''HPOFrequency'' [] None [Element ''Name'' [(''lang'', ''en'')] (Some ''Frequent'') []]],
      Element ''DisorderHPOTermAssociation'' [] None
        [Element ''Disorder'' [] None [Element ''OrphaCode'' [] (Some ''58'') []]]]"

definition namespaced_document :: element where
  \<comment> \<open>a single-entity document whose tags carry a namespace.\<close>
  "namespaced_document = Element ''{http://www.orpha.net}JDBOR'' [] None
     [Element ''{http://www.orpha.net}DisorderList'' [(''count'', ''1'')] None
        [Element ''{http://www.orpha.net}Disorder'' [(''id'', ''17601'')] None
           [Element ''{http://www.orpha.net}OrphaCode'' [] (Some ''166024'') []]]]"

definition plain_document :: element where
  \<comment> \<open>the same document without namespace.\<close>
  "plain_document = Element ''JDBOR'' [] None
     [Element ''DisorderList'' [(''count'', ''1'')] None
        [Element ''Disorder'' [(''id'', ''17601'')] None
           [Element ''OrphaCode'' [] (Some ''166024'') []]]]"

definition namespaced_example :: element where
  \<comment> \<open>\<open>example_document\<close> with a namespace on every tag.\<close>
  "namespaced_example = Element ''{urn:o}JDBOR'' [] None
     [Element ''{urn:o}Availability'' [] (Some ''open'') [],
      Element ''{urn:o}DisorderHPOTermAssociation'' [] None
        [Element ''{urn:o}Disorder'' [(''id'', ''17601'')] None [Element ''{urn:o}OrphaCode'' [] (Some ''166024'') []],
         Element ''{urn:o}HPO'' [] None [Element ''{urn:o}HPOId'' [] (Some ''HP_0001250'') []],
         Element ''{urn:o}HPOFrequency'' [] None [Element ''{urn:o}Name'' [(''lang'', ''en'')] (Some ''Frequent'') []]],
      Element ''{urn:o}DisorderHPOTermAssociation'' [] None
        [Element ''{urn:o}Disorder'' [] None [Element ''{urn:o}OrphaCode'' [] (Some ''58'') []]]]"



definition keys :: "row \<Rightarrow> string set" where
  \<comment> \<open>the keys of a dictionary.\<close>
  "keys r = fst ` set r"



definition hpoa_row :: "string \<Rightarrow> row" where
  \<comment> \<open>the row of a data line: the fields of its stripped text under the twelve names.\<close>
  "hpoa_row line = zip hpoa_fieldnames (split_all (CHR 0x09) (strip line))"

definition example_header :: string where
  \<comment> \<open>a header line.\<close>
  "example_header = ''database_id'' @ [CHR 0x09] @ ''disease_name'' @ [CHR 0x0A]"

definition trailing_empty_line :: string where
  \<comment> \<open>a data line of twelve fields whose last field is empty.\<close>
  "trailing_empty_line =
     ''OMIM:1'' @ [CHR 0x09] @ ''n'' @ [CHR 0x09] @ [CHR 0x09] @ ''HP:1'' @ [CHR 0x09] @ ''r''
       @ [CHR 0x09] @ ''TAS'' @ [CHR 0x09] @ [CHR 0x09] @ [CHR 0x09] @ [CHR 0x09] @ [CHR 0x09]
       @ ''P'' @ [CHR 0x09] @ [CHR 0x0A]"

definition example_line :: string where
  \<comment> \<open>a data line of twelve fields.\<close>
  "example_line =
     ''OMIM:1'' @ [CHR 0x09] @ ''n'' @ [CHR 0x09] @ [CHR 0x09] @ ''HP:1'' @ [CHR 0x09] @ ''r''
       @ [CHR 0x09] @ ''TAS'' @ [CHR 0x09] @ [CHR 0x09] @ [CHR 0x09] @ [CHR 0x09] @ [CHR 0x09]
       @ ''P'' @ [CHR 0x09] @ ''HPO:x'' @ [CHR 0x0A]"

section \<open>Verified properties\<close>

subsection \<open>The tag-block reader\<close>

lemma occurrences_snoc: "occurrences t (body @ [l]) = occurrences t body @ occ_of_line t l"
  by (simp add: occurrences_def occ_of_line_def)

lemma list_all2_prefix_append_to_last:
  assumes "list_all2 prefix os vs"
  shows "list_all2 prefix os (append_to_last vs s)"
proof (cases "vs = []")
  case True
  then show ?thesis using assms by (simp add: append_to_last_def)
next
  case False
  from assms have len: "length os = length vs" by (rule list_all2_lengthD)
  with False have osne: "os \<noteq> []" by auto
  have os: "os = butlast os @ [last os]" using osne by simp
  have vs: "vs = butlast vs @ [last vs]" using False by simp
  have "list_all2 prefix (butlast os @ [last os]) (butlast vs @ [last vs])"
    using assms os vs by simp
  then have a: "list_all2 prefix (butlast os) (butlast vs)" and b: "prefix (last os) (last vs)"
    using len by (auto simp: list_all2_append)
  have "list_all2 prefix (butlast os @ [last os]) (butlast vs @ [last vs @ s])"
    using a b len by (auto simp: list_all2_append intro: prefix_prefix)
  then show ?thesis using False os by (simp add: append_to_last_def)
qed

lemma term_step_inv:
  assumes "term_inv t os (term t)"
  shows "term_inv t (os @ occ_of_line t l) (fst (term_step (term, cur) l) t)"
proof (cases "strip l = []")
  case True
  then show ?thesis using assms by (simp add: term_step_def occ_of_line_def is_tag_line_def)
next
  case ne: False
  show ?thesis
  proof (cases "startswith l '' ''")
    case True
    then have occ: "occ_of_line t l = []" by (simp add: occ_of_line_def is_tag_line_def)
    show ?thesis
    proof (cases "\<exists>vs. cur = Some t \<and> t \<noteq> [] \<and> term t = Some vs")
      case True
      then obtain vs where c: "cur = Some t" "t \<noteq> []" "term t = Some vs" by blast
      have st: "fst (term_step (term, cur) l) t = Some (append_to_last vs ('' '' @ strip l))"
        using ne \<open>startswith l '' ''\<close> c by (simp add: term_step_def)
      from assms c have vne: "vs \<noteq> []" by simp
      show ?thesis
      proof (cases "t \<in> set multi_valued_tags")
        case True
        with assms c have "list_all2 prefix os vs" by simp
        then show ?thesis using st occ True vne
          by (simp add: list_all2_prefix_append_to_last) (simp add: append_to_last_def)
      next
        case False
        with assms c obtain v where "os \<noteq> []" "vs = [v]" "prefix (last os) v" by auto
        then show ?thesis using st occ False
          by (auto simp: append_to_last_def intro: prefix_prefix)
      qed
    next
      case False
      then have "fst (term_step (term, cur) l) t = term t"
        using ne \<open>startswith l '' ''\<close>
        by (auto simp: term_step_def split: option.splits)
      then show ?thesis using assms occ by simp
    qed
  next
    case nc: False
    obtain tg v where pv: "parse_tag_value l = (tg, v)" by (cases "parse_tag_value l")
    have tl: "is_tag_line l" using ne nc by (simp add: is_tag_line_def)
    show ?thesis
    proof (cases "tg = t \<and> v \<noteq> []")
      case True
      then have occ: "occ_of_line t l = [v]" using tl pv by (simp add: occ_of_line_def)
      show ?thesis
      proof (cases "t \<in> set multi_valued_tags")
        case m: True
        have st: "fst (term_step (term, cur) l) t = Some ((case term t of None \<Rightarrow> [] | Some vs \<Rightarrow> vs) @ [v])"
          using ne nc pv True m by (simp add: term_step_def)
        show ?thesis using assms m st occ
          by (cases "term t") (auto intro: list_all2_appendI)
      next
        case m: False
        have st: "fst (term_step (term, cur) l) t = Some [v]"
          using ne nc pv True m by (simp add: term_step_def)
        show ?thesis using m st occ by simp
      qed
    next
      case False
      then have occ: "occ_of_line t l = []" using pv by (auto simp: occ_of_line_def)
      have "fst (term_step (term, cur) l) t = term t"
        using ne nc pv False by (auto simp: term_step_def)
      then show ?thesis using assms occ by simp
    qed
  qed
qed

lemma term_loop_inv: "term_inv t (occurrences t body) (fst (term_loop body) t)"
proof (induction body rule: rev_induct)
  case Nil
  then show ?case by (simp add: term_loop_def occurrences_def)
next
  case (snoc l body)
  obtain tm cur where s: "term_loop body = (tm, cur)" by (cases "term_loop body")
  have "term_loop (body @ [l]) = term_step (tm, cur) l"
    using s by (simp add: term_loop_def)
  then show ?case using term_step_inv[of t "occurrences t body" tm l cur] snoc s
    by (simp add: occurrences_snoc)
qed

lemma term_step_exact:
  assumes "\<not> is_continuation l" and "tm t = exact_entry t os"
  shows "fst (term_step (tm, cur) l) t = exact_entry t (os @ occ_of_line t l)"
proof (cases "strip l = []")
  case True
  then show ?thesis using assms by (simp add: term_step_def occ_of_line_def is_tag_line_def)
next
  case ne: False
  with assms(1) have nc: "\<not> startswith l '' ''" by (simp add: is_continuation_def)
  obtain tg v where pv: "parse_tag_value l = (tg, v)" by (cases "parse_tag_value l")
  have tl: "is_tag_line l" using ne nc by (simp add: is_tag_line_def)
  show ?thesis
  proof (cases "tg = t \<and> v \<noteq> []")
    case True
    then have occ: "occ_of_line t l = [v]" using tl pv by (simp add: occ_of_line_def)
    show ?thesis using ne nc pv True assms(2) occ
      by (simp add: term_step_def exact_entry_def)
  next
    case False
    then have occ: "occ_of_line t l = []" using pv by (auto simp: occ_of_line_def)
    have "fst (term_step (tm, cur) l) t = tm t"
      using ne nc pv False by (auto simp: term_step_def)
    then show ?thesis using assms occ by simp
  qed
qed

lemma term_loop_exact:
  "\<forall>l\<in>set body. \<not> is_continuation l \<Longrightarrow>
   fst (term_loop body) t = exact_entry t (occurrences t body)"
proof (induction body rule: rev_induct)
  case Nil
  then show ?case by (simp add: term_loop_def occurrences_def exact_entry_def)
next
  case (snoc l body)
  obtain tm cur where s: "term_loop body = (tm, cur)" by (cases "term_loop body")
  have "term_loop (body @ [l]) = term_step (tm, cur) l"
    using s by (simp add: term_loop_def)
  then show ?case using term_step_exact[of l tm t "occurrences t body" cur] snoc s
    by (simp add: occurrences_snoc)
qed

lemma term_values_nonempty: "fst (term_loop body) t = Some vs \<Longrightarrow> vs \<noteq> []"
  using term_loop_inv[of t body] by simp

text \<open>
  C1. For a block that \<open>parse_term_block\<close> accepts and any tag \<open>t\<close>: when \<open>t\<close> is one of
  the multi-valued tags, the term holds one entry per value-bearing occurrence of \<open>t\<close>, in
  the order of the occurrences, and each entry begins with the value of its occurrence
  (continuation lines can only lengthen an entry); when \<open>t\<close> is any other tag, the term
  holds a single entry, which begins with the value of the last occurrence. A tag without
  value-bearing occurrence has no entry. In a block without continuation lines the
  entries are the values themselves: all of them in first-seen order for a multi-valued
  tag, the last one alone for any other tag.
\<close>

theorem multi_valued_tags_accumulate:
  assumes "parse_term_block (first # body) = Some tm"
  shows "(t \<in> set multi_valued_tags \<longrightarrow>
            (case tm t of
               None \<Rightarrow> occurrences t body = []
             | Some vs \<Rightarrow> list_all2 prefix (occurrences t body) vs))
       \<and> (t \<notin> set multi_valued_tags \<longrightarrow>
            (case tm t of
               None \<Rightarrow> occurrences t body = []
             | Some vs \<Rightarrow> occurrences t body \<noteq> []
                           \<and> (\<exists>v. vs = [v] \<and> prefix (last (occurrences t body)) v)))
       \<and> ((\<forall>l\<in>set body. \<not> is_continuation l) \<longrightarrow>
            tm t = (if occurrences t body = [] then None
                    else Some (if t \<in> set multi_valued_tags then occurrences t body
                               else [last (occurrences t body)])))"
proof -
  from assms have tm: "tm = fst (term_loop body)"
    by (simp add: parse_term_block_def split: if_splits)
  have inv: "term_inv t (occurrences t body) (tm t)"
    unfolding tm by (rule term_loop_inv)
  have ex: "(\<forall>l\<in>set body. \<not> is_continuation l) \<longrightarrow> tm t = exact_entry t (occurrences t body)"
    unfolding tm using term_loop_exact by blast
  show ?thesis using inv ex
    by (cases "tm t") (auto simp: exact_entry_def)
qed

theorem multi_valued_tags_accumulate_witness:
  "term_lookup [''[Term]'', ''id: HP:1'', ''synonym: a'', ''name: n1'', ''synonym: b'', ''name: n2''] ''synonym''
     = Some [''a'', ''b'']
   \<and> term_lookup [''[Term]'', ''id: HP:1'', ''synonym: a'', ''name: n1'', ''synonym: b'', ''name: n2''] ''name''
     = Some [''n2'']"
proof -
  let ?body = "[''id: HP:1'', ''synonym: a'', ''name: n1'', ''synonym: b'', ''name: n2'']"
  have nc: "\<forall>l\<in>set ?body. \<not> is_continuation l"
    by (simp add: is_continuation_def startswith_def)
  obtain tm where p: "parse_term_block (''[Term]'' # ?body) = Some tm"
    by (simp add: parse_term_block_def startswith_def)
  have o1: "occurrences ''synonym'' ?body = [''a'', ''b'']"
    by (simp add: occurrences_def is_tag_line_def parse_tag_value_def startswith_def strip_def is_space_def)
  have o2: "occurrences ''name'' ?body = [''n1'', ''n2'']"
    by (simp add: occurrences_def is_tag_line_def parse_tag_value_def startswith_def strip_def is_space_def)
  have "tm ''synonym'' = Some [''a'', ''b'']"
    using multi_valued_tags_accumulate[OF p, of "''synonym''"] nc o1
    by (simp add: multi_valued_tags_def)
  moreover have "tm ''name'' = Some [''n2'']"
    using multi_valued_tags_accumulate[OF p, of "''name''"] nc o2
    by (simp add: multi_valued_tags_def)
  ultimately show ?thesis using p by (simp add: term_lookup_def)
qed

lemma term_step_snd:
  "snd (term_step (tm, cur) l) = (if is_tag_line l then Some (fst (parse_tag_value l)) else cur)"
  by (auto simp: term_step_def is_tag_line_def split: option.splits prod.splits)

lemma term_loop_snd: "snd (term_loop body) = last_tag body"
proof (induction body rule: rev_induct)
  case Nil
  then show ?case by (simp add: term_loop_def last_tag_def)
next
  case (snoc l body)
  obtain tm cur where s: "term_loop body = (tm, cur)" by (cases "term_loop body")
  have "term_loop (body @ [l]) = term_step (tm, cur) l"
    using s by (simp add: term_loop_def)
  then have "snd (term_loop (body @ [l])) = (if is_tag_line l then Some (fst (parse_tag_value l)) else cur)"
    by (simp add: term_step_snd)
  moreover have "last_tag (body @ [l]) = (if is_tag_line l then Some (fst (parse_tag_value l)) else last_tag body)"
    by (simp add: last_tag_def)
  ultimately show ?case using snoc s by simp
qed

lemma term_step_continuation:
  assumes "is_continuation c" and "\<forall>t vs. tm t = Some vs \<longrightarrow> vs \<noteq> []"
  shows "term_step (tm, cur) c = (extend_entry tm cur ('' '' @ strip c), cur)"
  using assms
  by (auto simp: term_step_def is_continuation_def extend_entry_def append_to_last_def
           split: option.splits)

lemma extend_entry_nonempty:
  "\<forall>t vs. tm t = Some vs \<longrightarrow> vs \<noteq> [] \<Longrightarrow> \<forall>t vs. extend_entry tm cur s t = Some vs \<longrightarrow> vs \<noteq> []"
  by (auto simp: extend_entry_def split: option.splits if_splits)

lemma extend_entry_twice:
  "extend_entry (extend_entry tm cur a) cur b = extend_entry tm cur (a @ b)"
  by (auto simp: extend_entry_def split: option.splits)

lemma extend_entry_Nil:
  "\<forall>t vs. tm t = Some vs \<longrightarrow> vs \<noteq> [] \<Longrightarrow> extend_entry tm cur [] = tm"
  by (auto simp: extend_entry_def fun_upd_idem_iff split: option.splits)

lemma continuation_fold:
  assumes "\<forall>c\<in>set cs. is_continuation c" and "\<forall>t vs. tm t = Some vs \<longrightarrow> vs \<noteq> []"
  shows "foldl term_step (tm, cur) cs = (extend_entry tm cur (continuation_text cs), cur)"
  using assms
proof (induction cs arbitrary: tm)
  case Nil
  then show ?case by (simp add: continuation_text_def extend_entry_Nil)
next
  case (Cons c cs)
  have ne: "\<forall>t vs. extend_entry tm cur ('' '' @ strip c) t = Some vs \<longrightarrow> vs \<noteq> []"
    using Cons.prems(2) by (rule extend_entry_nonempty)
  have "foldl term_step (tm, cur) (c # cs) = foldl term_step (extend_entry tm cur ('' '' @ strip c), cur) cs"
    using Cons.prems by (simp add: term_step_continuation)
  also have "\<dots> = (extend_entry (extend_entry tm cur ('' '' @ strip c)) cur (continuation_text cs), cur)"
    using Cons.IH[OF _ ne] Cons.prems(1) by simp
  finally show ?case by (simp add: extend_entry_twice continuation_text_def)
qed

lemma extend_entry_dom: "dom (extend_entry tm cur s) = dom tm"
  by (auto simp: extend_entry_def split: option.splits if_splits)

text \<open>
  C2, as amended. The loop takes a line for a continuation when its stripped text is not
  empty and it starts with a space character. Lines of that kind, read after a block
  body, add no tag to the term. When the most recent tag line of the body carries a
  non-empty tag under which the term holds values, the last of these values \<open>V\<close> becomes
  \<open>V + " " + c1.strip() + " " + ... + " " + cN.strip()\<close> and nothing else changes; when
  no tag line has been read, or its tag is empty or holds no value, the continuation lines
  are discarded.
\<close>

theorem continuation_lines_extend:
  assumes "parse_term_block (first # body) = Some tm"
    and "\<forall>c\<in>set cs. is_continuation c"
  shows "\<exists>tm'. parse_term_block (first # body @ cs) = Some tm'
           \<and> dom tm' = dom tm
           \<and> tm' = (case last_tag body of
                      None \<Rightarrow> tm
                    | Some t \<Rightarrow>
                        if t = [] then tm
                        else (case tm t of
                                None \<Rightarrow> tm
                              | Some vs \<Rightarrow> tm(t \<mapsto> butlast vs @ [last vs @ continuation_text cs])))"
proof -
  from assms(1) have st: "startswith first ''[Term]''" and tm: "tm = fst (term_loop body)"
    by (auto simp: parse_term_block_def split: if_splits)
  have ne: "\<forall>t vs. tm t = Some vs \<longrightarrow> vs \<noteq> []"
    unfolding tm using term_values_nonempty by blast
  have "term_loop body = (tm, last_tag body)"
    using tm term_loop_snd[of body] by (simp add: prod_eq_iff)
  then have "term_loop (body @ cs) = foldl term_step (tm, last_tag body) cs"
    by (simp add: term_loop_def)
  then have "fst (term_loop (body @ cs)) = extend_entry tm (last_tag body) (continuation_text cs)"
    using continuation_fold[OF assms(2) ne] by simp
  then have "parse_term_block (first # body @ cs) = Some (extend_entry tm (last_tag body) (continuation_text cs))"
    using st by (simp add: parse_term_block_def)
  then show ?thesis
    by (simp add: extend_entry_dom) (simp add: extend_entry_def)
qed

theorem continuation_lines_extend_witness:
  "term_lookup [''[Term]'', ''id: HP:1'', ''def: V'', '' c1'', ''   c2  ''] ''def'' = Some [''V c1 c2'']"
proof -
  let ?body = "[''id: HP:1'', ''def: V'']"
  let ?cs = "['' c1'', ''   c2  '']"
  obtain tm where p: "parse_term_block (''[Term]'' # ?body) = Some tm"
    by (simp add: parse_term_block_def startswith_def)
  have v: "tm ''def'' = Some [''V'']"
    using p by (auto simp: parse_term_block_def term_loop_def term_step_def startswith_def
        strip_def is_space_def parse_tag_value_def multi_valued_tags_def)
  have cs: "\<forall>c\<in>set ?cs. is_continuation c"
    by (simp add: is_continuation_def startswith_def strip_def is_space_def)
  have lt: "last_tag ?body = Some ''def''"
    by (simp add: last_tag_def is_tag_line_def parse_tag_value_def startswith_def strip_def is_space_def)
  have ct: "continuation_text ?cs = '' c1 c2''"
    by (simp add: continuation_text_def strip_def is_space_def)
  show ?thesis
    using continuation_lines_extend[OF p cs] v lt ct
    by (auto simp: term_lookup_def)
qed

text \<open>
  C2 as stated fails twice. A line \<open>": v"\<close> gives the empty tag the value \<open>v\<close>, and the
  continuation \<open>" c"\<close> that follows is not appended to it. A line that begins with a tab is
  read as a tag line, and brings the new tag \<open>name\<close> into the term.
\<close>

theorem continuation_counterexample:
  "term_lookup [''[Term]'', '': v''] [] = Some [''v'']
   \<and> term_lookup [''[Term]'', '': v'', '' c''] [] = Some [''v'']
   \<and> term_lookup [''[Term]'', '': v'', '' c''] ''name'' = None
   \<and> term_lookup [''[Term]'', '': v'', '' c'', CHR 0x09 # ''name: x''] ''name'' = Some [''x'']"
  by (simp add: term_lookup_def parse_term_block_def term_loop_def term_step_def startswith_def
      strip_def is_space_def parse_tag_value_def multi_valued_tags_def)

subsection \<open>The synonym decomposer\<close>

lemma word_not_space: "is_word c \<Longrightarrow> \<not> is_space c"
  by (auto simp: is_word_def is_space_def Let_def)

lemma bracket_class: "\<not> is_word CHR ''[''" "\<not> is_space CHR ''[''"
  by (simp_all add: is_word_def is_space_def)

lemma take_run:
  "list_all P xs \<Longrightarrow> ys = [] \<or> \<not> P (hd ys) \<Longrightarrow> takeWhile P (xs @ ys) = xs"
  by (induction xs) (auto simp: takeWhile_eq_Nil_iff neq_Nil_conv)

lemma drop_run:
  "list_all P xs \<Longrightarrow> ys = [] \<or> \<not> P (hd ys) \<Longrightarrow> dropWhile P (xs @ ys) = ys"
  by (induction xs) (auto simp: dropWhile_eq_self_iff neq_Nil_conv)

lemma run_all: "list_all P (takeWhile P xs)"
  by (induction xs) auto

lemma run_stop: "dropWhile P xs = y # ys \<Longrightarrow> \<not> P y"
  using hd_dropWhile[of P xs] by auto

lemma match_quoted_shape:
  assumes "txt \<noteq> []" and "CHR 0x22 \<notin> set txt"
  shows "match_quoted (CHR 0x22 # txt @ CHR 0x22 # r) = Some (txt, r)"
proof -
  have a: "list_all (\<lambda>c. c \<noteq> CHR 0x22) txt" using assms(2) by (auto simp: list_all_iff)
  have "takeWhile (\<lambda>c. c \<noteq> CHR 0x22) (txt @ CHR 0x22 # r) = txt"
    and "dropWhile (\<lambda>c. c \<noteq> CHR 0x22) (txt @ CHR 0x22 # r) = CHR 0x22 # r"
    using a by (simp_all add: take_run drop_run)
  then show ?thesis using assms(1) by (simp add: match_quoted_def)
qed

lemma match_quoted_parts:
  assumes "match_quoted s = Some (txt, r)"
  shows "s = CHR 0x22 # txt @ CHR 0x22 # r \<and> txt \<noteq> [] \<and> CHR 0x22 \<notin> set txt"
proof (cases s)
  case Nil
  with assms show ?thesis by (simp add: match_quoted_def)
next
  case (Cons q r1)
  define r2 where "r2 = dropWhile (\<lambda>c. c \<noteq> CHR 0x22) r1"
  from assms Cons have f: "q = CHR 0x22" "txt = takeWhile (\<lambda>c. c \<noteq> CHR 0x22) r1" "txt \<noteq> []"
    "r2 \<noteq> []" "r = tl r2"
    by (auto simp: match_quoted_def Let_def r2_def split: if_splits)
  obtain y where r2: "r2 = y # r" using f(4,5) by (cases r2) auto
  then have y: "y = CHR 0x22" using run_stop[of "\<lambda>c. c \<noteq> CHR 0x22" r1 y r] by (simp add: r2_def)
  have "r1 = txt @ r2" unfolding f(2) r2_def by simp
  moreover have "CHR 0x22 \<notin> set txt"
    unfolding f(2) using run_all[of "\<lambda>c. c \<noteq> CHR 0x22" r1] by (auto simp: list_all_iff)
  ultimately show ?thesis using Cons f(1,3) r2 y by simp
qed

lemma match_type_shape:
  assumes "ws \<noteq> []" "list_all is_space ws" "ty \<noteq> []" "list_all is_word ty"
    and "r = [] \<or> \<not> is_word (hd r)"
  shows "match_type (ws @ ty @ r) = Some (ty, r)"
proof -
  have h: "\<not> is_space (hd (ty @ r))"
    using assms(3,4) by (cases ty) (auto simp: word_not_space)
  have "takeWhile is_space (ws @ ty @ r) = ws" "dropWhile is_space (ws @ ty @ r) = ty @ r"
    using assms(2,3) h by (simp_all add: take_run drop_run)
  moreover have "takeWhile is_word (ty @ r) = ty" "dropWhile is_word (ty @ r) = r"
    using assms(4,5) by (simp_all add: take_run drop_run)
  ultimately show ?thesis using assms(1,3) by (simp add: match_type_def)
qed

lemma match_type_parts:
  assumes "match_type s = Some (ty, r)"
  shows "\<exists>ws. s = ws @ ty @ r \<and> ws \<noteq> [] \<and> list_all is_space ws \<and> ty \<noteq> [] \<and> list_all is_word ty"
proof -
  define ws where "ws = takeWhile is_space s"
  define r4 where "r4 = dropWhile is_space s"
  have "match_type s = (if ws = [] \<or> takeWhile is_word r4 = [] then None
                        else Some (takeWhile is_word r4, dropWhile is_word r4))"
    unfolding match_type_def ws_def r4_def Let_def ..
  with assms have f: "ws \<noteq> []" "ty = takeWhile is_word r4" "ty \<noteq> []" "r = dropWhile is_word r4"
    by (simp_all split: if_splits)
  have "s = ws @ r4" unfolding ws_def r4_def by simp
  moreover have "r4 = ty @ r" unfolding f(2,4) by simp
  moreover have "list_all is_space ws" unfolding ws_def by (rule run_all)
  moreover have "list_all is_word ty" unfolding f(2) by (rule run_all)
  ultimately show ?thesis using f(1,3) by auto
qed

lemma match_subtype_shape_none:
  assumes "list_all is_space ws3" and "r = [] \<or> (\<not> is_space (hd r) \<and> \<not> is_word (hd r))"
  shows "match_subtype (ws3 @ r) = (None, r)"
proof -
  have h: "r = [] \<or> \<not> is_space (hd r)" using assms(2) by blast
  have "takeWhile is_space (ws3 @ r) = ws3" "dropWhile is_space (ws3 @ r) = r"
    by (rule take_run[OF assms(1) h], rule drop_run[OF assms(1) h])
  moreover have "takeWhile is_word r = []" using assms(2) by (cases r) auto
  ultimately show ?thesis by (simp add: match_subtype_def)
qed

lemma match_subtype_shape_some:
  assumes "ws2 \<noteq> []" "list_all is_space ws2" "w \<noteq> []" "list_all is_word w"
    and "list_all is_space ws3" and "r = [] \<or> (\<not> is_space (hd r) \<and> \<not> is_word (hd r))"
  shows "match_subtype (ws2 @ w @ ws3 @ r) = (Some w, r)"
proof -
  have h: "\<not> is_space (hd (w @ ws3 @ r))"
    using assms(3,4) by (cases w) (auto simp: word_not_space)
  have h2: "ws3 @ r = [] \<or> \<not> is_word (hd (ws3 @ r))"
    using assms(5,6) by (cases ws3) (auto dest: word_not_space)
  have "takeWhile is_space (ws2 @ w @ ws3 @ r) = ws2" "dropWhile is_space (ws2 @ w @ ws3 @ r) = w @ ws3 @ r"
    using assms(2,3) h by (simp_all add: take_run drop_run)
  moreover have "takeWhile is_word (w @ ws3 @ r) = w" "dropWhile is_word (w @ ws3 @ r) = ws3 @ r"
    using assms(4) h2 by (simp_all add: take_run drop_run)
  moreover have "dropWhile is_space (ws3 @ r) = r"
  proof (rule drop_run[OF assms(5)])
    show "r = [] \<or> \<not> is_space (hd r)" using assms(6) by blast
  qed
  ultimately show ?thesis using assms(1,3) by (simp add: match_subtype_def)
qed

lemma match_subtype_parts:
  assumes "match_subtype s = (sub, r)"
  shows "(sub = None \<and> (\<exists>ws3. s = ws3 @ r \<and> list_all is_space ws3))
       \<or> (\<exists>ws2 w ws3. sub = Some w \<and> s = ws2 @ w @ ws3 @ r \<and> ws2 \<noteq> [] \<and> list_all is_space ws2
            \<and> w \<noteq> [] \<and> list_all is_word w \<and> list_all is_space ws3)"
proof -
  define ws2 where "ws2 = takeWhile is_space s"
  define r6 where "r6 = dropWhile is_space s"
  define w where "w = takeWhile is_word r6"
  define r7 where "r7 = dropWhile is_word r6"
  have e: "s = ws2 @ r6" "r6 = w @ r7" by (simp_all add: ws2_def r6_def w_def r7_def)
  show ?thesis
  proof (cases "ws2 \<noteq> [] \<and> w \<noteq> []")
    case True
    with assms have f: "sub = Some w" "r = dropWhile is_space r7"
      by (auto simp: match_subtype_def Let_def ws2_def r6_def w_def r7_def)
    have "r7 = takeWhile is_space r7 @ r" unfolding f(2) by simp
    then have "s = ws2 @ w @ takeWhile is_space r7 @ r" using e by simp
    then show ?thesis using True f(1)
      by (intro disjI2 exI[of _ ws2] exI[of _ w] exI[of _ "takeWhile is_space r7"])
         (simp add: ws2_def w_def run_all)
  next
    case False
    with assms have f: "sub = None" "r = r6"
      by (auto simp: match_subtype_def Let_def ws2_def r6_def w_def r7_def)
    show ?thesis using f e(1) by (auto simp: ws2_def run_all)
  qed
qed

lemma match_source_shape:
  assumes "CHR '']'' \<notin> set src" and "CHR 0x0A \<notin> set src"
  shows "match_source (CHR ''['' # src @ CHR '']'' # rest) = Some (src, rest)"
proof -
  have a: "list_all (\<lambda>c. c \<noteq> CHR '']'') src" using assms(1) by (auto simp: list_all_iff)
  have "takeWhile (\<lambda>c. c \<noteq> CHR '']'') (src @ CHR '']'' # rest) = src"
    and "dropWhile (\<lambda>c. c \<noteq> CHR '']'') (src @ CHR '']'' # rest) = CHR '']'' # rest"
    using a by (simp_all add: take_run drop_run)
  then show ?thesis using assms(2) by (simp add: match_source_def)
qed

lemma match_source_parts:
  assumes "match_source s = Some (src, rest)"
  shows "s = CHR ''['' # src @ CHR '']'' # rest \<and> CHR '']'' \<notin> set src \<and> CHR 0x0A \<notin> set src"
proof (cases s)
  case Nil
  with assms show ?thesis by (simp add: match_source_def)
next
  case (Cons b r9)
  define r10 where "r10 = dropWhile (\<lambda>c. c \<noteq> CHR '']'') r9"
  from assms Cons have f: "b = CHR ''[''" "src = takeWhile (\<lambda>c. c \<noteq> CHR '']'') r9"
    "r10 \<noteq> []" "rest = tl r10" "CHR 0x0A \<notin> set src"
    by (auto simp: match_source_def Let_def r10_def split: if_splits)
  obtain y where r10: "r10 = y # rest" using f(3,4) by (cases r10) auto
  then have y: "y = CHR '']''" using run_stop[of "\<lambda>c. c \<noteq> CHR '']''" r9 y rest] by (simp add: r10_def)
  have "r9 = src @ r10" unfolding f(2) r10_def by simp
  moreover have "CHR '']'' \<notin> set src"
    unfolding f(2) using run_all[of "\<lambda>c. c \<noteq> CHR '']''" r9] by (auto simp: list_all_iff)
  ultimately show ?thesis using Cons f(1,5) r10 y by simp
qed

lemma match_synonym_shape:
  assumes "synonym_parts_ok txt ws1 ty sub ws3 src"
  shows "match_synonym (synonym_string txt ws1 ty sub ws3 src rest)
         = Some (txt, ty, map_option snd sub, src, rest)"
proof -
  define r8 where "r8 = CHR ''['' # src @ CHR '']'' # rest"
  define r5 where "r5 = (case sub of None \<Rightarrow> [] | Some (ws2, w) \<Rightarrow> ws2 @ w) @ ws3 @ r8"
  from assms have ok:
    "txt \<noteq> []" "CHR 0x22 \<notin> set txt" "ws1 \<noteq> []" "list_all is_space ws1"
    "ty \<noteq> []" "list_all is_word ty" "list_all is_space ws3"
    "CHR '']'' \<notin> set src" "CHR 0x0A \<notin> set src"
    by (auto simp: synonym_parts_ok_def)
  have s: "synonym_string txt ws1 ty sub ws3 src rest = CHR 0x22 # txt @ CHR 0x22 # ws1 @ ty @ r5"
    by (simp add: synonym_string_def r5_def r8_def)
  have r8hd: "r8 = [] \<or> (\<not> is_space (hd r8) \<and> \<not> is_word (hd r8))"
    by (simp add: r8_def bracket_class)
  have st: "match_subtype r5 = (map_option snd sub, r8)"
  proof (cases sub)
    case None
    then show ?thesis using match_subtype_shape_none[OF ok(7) r8hd] by (simp add: r5_def)
  next
    case (Some p)
    obtain ws2 w where p: "p = (ws2, w)" by (cases p)
    with Some assms have sb: "ws2 \<noteq> []" "list_all is_space ws2" "w \<noteq> []" "list_all is_word w"
      by (auto simp: synonym_parts_ok_def)
    show ?thesis using match_subtype_shape_some[OF sb ok(7) r8hd] Some p by (simp add: r5_def)
  qed
  have r5hd: "r5 = [] \<or> \<not> is_word (hd r5)"
  proof (cases sub)
    case None
    then show ?thesis using ok(7)
      by (cases ws3) (auto simp: r5_def r8_def bracket_class dest: word_not_space)
  next
    case (Some p)
    obtain ws2 w where p: "p = (ws2, w)" by (cases p)
    with Some assms have "ws2 \<noteq> []" "list_all is_space ws2"
      by (auto simp: synonym_parts_ok_def)
    then show ?thesis using Some p by (cases ws2) (auto simp: r5_def dest: word_not_space)
  qed
  have sr: "match_source r8 = Some (src, rest)"
    unfolding r8_def by (rule match_source_shape[OF ok(8,9)])
  show ?thesis
    unfolding s match_synonym_def
    by (simp add: match_quoted_shape[OF ok(1,2)] match_type_shape[OF ok(3,4,5,6) r5hd] st sr)
qed

lemma match_synonym_parts:
  assumes m: "match_synonym s = Some (txt, ty, sub, src, rest)"
  shows "\<exists>ws1 sub' ws3. s = synonym_string txt ws1 ty sub' ws3 src rest
           \<and> synonym_parts_ok txt ws1 ty sub' ws3 src \<and> sub = map_option snd sub'"
proof -
  from m have "\<exists>r3 r5 r8. match_quoted s = Some (txt, r3) \<and> match_type r3 = Some (ty, r5)
      \<and> match_subtype r5 = (sub, r8) \<and> match_source r8 = Some (src, rest)"
    by (auto simp: match_synonym_def split: option.splits prod.splits)
  then obtain r3 r5 r8 where a: "match_quoted s = Some (txt, r3)" and b: "match_type r3 = Some (ty, r5)"
    and c: "match_subtype r5 = (sub, r8)" and d: "match_source r8 = Some (src, rest)"
    by blast
  from match_quoted_parts[OF a] have pa: "s = CHR 0x22 # txt @ CHR 0x22 # r3" "txt \<noteq> []" "CHR 0x22 \<notin> set txt"
    by simp_all
  from match_type_parts[OF b] obtain ws1 where pb: "r3 = ws1 @ ty @ r5" "ws1 \<noteq> []"
    "list_all is_space ws1" "ty \<noteq> []" "list_all is_word ty" by blast
  from match_source_parts[OF d] have pd: "r8 = CHR ''['' # src @ CHR '']'' # rest"
    "CHR '']'' \<notin> set src" "CHR 0x0A \<notin> set src" by simp_all
  from match_subtype_parts[OF c] show ?thesis
  proof (elim disjE conjE exE)
    fix ws3 assume h: "sub = None" "r5 = ws3 @ r8" "list_all is_space ws3"
    have "s = synonym_string txt ws1 ty None ws3 src rest"
      using pa(1) pb(1) h(2) pd(1) by (simp add: synonym_string_def)
    moreover have "synonym_parts_ok txt ws1 ty None ws3 src"
      using pa pb pd h by (simp add: synonym_parts_ok_def)
    ultimately show ?thesis using h(1) by (intro exI[of _ ws1] exI[of _ None] exI[of _ ws3]) simp
  next
    fix ws2 w ws3 assume h: "sub = Some w" "r5 = ws2 @ w @ ws3 @ r8" "ws2 \<noteq> []" "list_all is_space ws2"
      "w \<noteq> []" "list_all is_word w" "list_all is_space ws3"
    have "s = synonym_string txt ws1 ty (Some (ws2, w)) ws3 src rest"
      using pa(1) pb(1) h(2) pd(1) by (simp add: synonym_string_def)
    moreover have "synonym_parts_ok txt ws1 ty (Some (ws2, w)) ws3 src"
      using pa pb pd h by (simp add: synonym_parts_ok_def)
    ultimately show ?thesis using h(1)
      by (intro exI[of _ ws1] exI[of _ "Some (ws2, w)"] exI[of _ ws3]) simp
  qed
qed

lemma strip_id: "s \<noteq> [] \<Longrightarrow> \<not> is_space (hd s) \<Longrightarrow> \<not> is_space (last s) \<Longrightarrow> strip s = s"
proof -
  assume a: "s \<noteq> []" "\<not> is_space (hd s)" "\<not> is_space (last s)"
  have "dropWhile is_space s = s" using a(1,2) by (cases s) auto
  moreover have "dropWhile is_space (rev s) = rev s"
    using a(1,3) by (cases s rule: rev_cases) auto
  ultimately show ?thesis by (simp add: strip_def)
qed

lemma strip_word: "ty \<noteq> [] \<Longrightarrow> list_all is_word ty \<Longrightarrow> strip ty = ty"
  by (rule strip_id) (auto simp: list_all_iff dest: word_not_space)

lemma strip_two_words:
  "ty \<noteq> [] \<Longrightarrow> list_all is_word ty \<Longrightarrow> w \<noteq> [] \<Longrightarrow> list_all is_word w
   \<Longrightarrow> strip (ty @ '' '' @ w) = ty @ '' '' @ w"
  by (rule strip_id) (auto simp: list_all_iff hd_append dest: word_not_space)

lemma extract_shape:
  assumes "synonym_parts_ok txt ws1 ty sub ws3 src"
  shows "extract_synonym_details (synonym_string txt ws1 ty sub ws3 src rest)
         = (strip txt, (case sub of None \<Rightarrow> ty | Some (ws2, w) \<Rightarrow> ty @ '' '' @ w), strip src)"
proof (cases sub)
  case None
  have ms: "match_synonym (synonym_string txt ws1 ty None ws3 src rest) = Some (txt, ty, None, src, rest)"
    using match_synonym_shape[OF assms, of rest] None by simp
  show ?thesis using assms None
    by (simp add: extract_synonym_details_def ms strip_word synonym_parts_ok_def)
next
  case (Some p)
  obtain ws2 w where p: "p = (ws2, w)" by (cases p)
  have ms: "match_synonym (synonym_string txt ws1 ty (Some (ws2, w)) ws3 src rest)
      = Some (txt, ty, Some w, src, rest)"
    using match_synonym_shape[OF assms, of rest] Some p by simp
  have "strip (ty @ '' '' @ w) = ty @ '' '' @ w"
    using assms Some p by (intro strip_two_words) (simp_all add: synonym_parts_ok_def)
  then show ?thesis using assms Some p
    by (simp add: extract_synonym_details_def ms synonym_parts_ok_def)
qed

text \<open>
  C3, as amended. \<open>extract_synonym_details\<close> is total, so it never raises. On a string of
  the shape quoted text, type token, optional subtype, bracketed source, it returns the
  quoted text and the bracket contents, each stripped of surrounding whitespace, and the
  type token, followed by a single space and the subtype when there is one. On a string
  that has no prefix of this shape it returns the string itself with empty type and
  source. The string \<open>"Abnormality of body height" EXACT layperson []\<close> gives the text
  \<open>Abnormality of body height\<close>, the type \<open>EXACT layperson\<close> and an empty source.
\<close>

theorem extract_synonym_details_cases:
  "(synonym_parts_ok txt ws1 ty sub ws3 src \<longrightarrow>
      extract_synonym_details (synonym_string txt ws1 ty sub ws3 src rest)
      = (strip txt, (case sub of None \<Rightarrow> ty | Some (ws2, w) \<Rightarrow> ty @ '' '' @ w), strip src))
   \<and> ((\<forall>txt ws1 ty sub ws3 src rest.
          synonym_parts_ok txt ws1 ty sub ws3 src \<longrightarrow> s \<noteq> synonym_string txt ws1 ty sub ws3 src rest)
        \<longrightarrow> extract_synonym_details s = (s, [], []))
   \<and> extract_synonym_details
        [CHR 0x22, CHR ''A'', CHR ''b'', CHR ''n'', CHR ''o'', CHR ''r'', CHR ''m'', CHR ''a'',
         CHR ''l'', CHR ''i'', CHR ''t'', CHR ''y'', CHR '' '', CHR ''o'', CHR ''f'', CHR '' '',
         CHR ''b'', CHR ''o'', CHR ''d'', CHR ''y'', CHR '' '', CHR ''h'', CHR ''e'', CHR ''i'',
         CHR ''g'', CHR ''h'', CHR ''t'', CHR 0x22, CHR '' '', CHR ''E'', CHR ''X'', CHR ''A'',
         CHR ''C'', CHR ''T'', CHR '' '', CHR ''l'', CHR ''a'', CHR ''y'', CHR ''p'', CHR ''e'',
         CHR ''r'', CHR ''s'', CHR ''o'', CHR ''n'', CHR '' '', CHR ''['', CHR '']'']
      = (''Abnormality of body height'', ''EXACT layperson'', [])"
proof (intro conjI impI)
  assume "synonym_parts_ok txt ws1 ty sub ws3 src"
  then show "extract_synonym_details (synonym_string txt ws1 ty sub ws3 src rest)
      = (strip txt, (case sub of None \<Rightarrow> ty | Some (ws2, w) \<Rightarrow> ty @ '' '' @ w), strip src)"
    by (rule extract_shape)
next
  assume no: "\<forall>txt ws1 ty sub ws3 src rest.
          synonym_parts_ok txt ws1 ty sub ws3 src \<longrightarrow> s \<noteq> synonym_string txt ws1 ty sub ws3 src rest"
  have "match_synonym s = None"
  proof (cases "match_synonym s")
    case None
    then show ?thesis .
  next
    case (Some p)
    obtain q t u v r where "p = (q, t, u, v, r)" by (cases p)
    with Some match_synonym_parts[of s q t u v r] no show ?thesis by blast
  qed
  then show "extract_synonym_details s = (s, [], [])"
    by (simp add: extract_synonym_details_def)
next
  show "extract_synonym_details
        [CHR 0x22, CHR ''A'', CHR ''b'', CHR ''n'', CHR ''o'', CHR ''r'', CHR ''m'', CHR ''a'',
         CHR ''l'', CHR ''i'', CHR ''t'', CHR ''y'', CHR '' '', CHR ''o'', CHR ''f'', CHR '' '',
         CHR ''b'', CHR ''o'', CHR ''d'', CHR ''y'', CHR '' '', CHR ''h'', CHR ''e'', CHR ''i'',
         CHR ''g'', CHR ''h'', CHR ''t'', CHR 0x22, CHR '' '', CHR ''E'', CHR ''X'', CHR ''A'',
         CHR ''C'', CHR ''T'', CHR '' '', CHR ''l'', CHR ''a'', CHR ''y'', CHR ''p'', CHR ''e'',
         CHR ''r'', CHR ''s'', CHR ''o'', CHR ''n'', CHR '' '', CHR ''['', CHR '']'']
      = (''Abnormality of body height'', ''EXACT layperson'', [])"
    by code_simp
qed

theorem extract_synonym_details_cases_witness:
  "extract_synonym_details
     (synonym_string ''Alexander  disease '' '' '' ''EXACT'' (Some (''  '', ''layperson'')) '' '' ''HPO:probinson'' [])
   = (''Alexander  disease'', ''EXACT layperson'', ''HPO:probinson'')
   \<and> extract_synonym_details ''free text with no quotes'' = (''free text with no quotes'', [], [])"
proof -
  have ok: "synonym_parts_ok ''Alexander  disease '' '' '' ''EXACT'' (Some (''  '', ''layperson'')) '' '' ''HPO:probinson''"
    by (simp add: synonym_parts_ok_def is_space_def is_word_def)
  have no: "\<forall>txt ws1 ty sub ws3 src rest.
      synonym_parts_ok txt ws1 ty sub ws3 src
      \<longrightarrow> ''free text with no quotes'' \<noteq> synonym_string txt ws1 ty sub ws3 src rest"
    by (simp add: synonym_string_def)
  have st: "strip ''Alexander  disease '' = ''Alexander  disease''" "strip ''HPO:probinson'' = ''HPO:probinson''"
    by (simp_all add: strip_def is_space_def)
  show ?thesis
    using extract_synonym_details_cases[of "''Alexander  disease ''" "'' ''" "''EXACT''"
        "Some (''  '', ''layperson'')" "'' ''" "''HPO:probinson''" "[]" "''free text with no quotes''"]
      ok no st
    by simp
qed

text \<open>
  C3 as stated fails where the quoted text or the bracket contents begin or end with
  whitespace: the quoted text \<open>" a"\<close> and the bracket contents \<open>" b"\<close> come back as
  \<open>a\<close> and \<open>b\<close>.
\<close>

theorem extract_synonym_details_counterexample:
  "synonym_parts_ok '' a'' '' '' ''EXACT'' None '' '' '' b''
   \<and> extract_synonym_details (synonym_string '' a'' '' '' ''EXACT'' None '' '' '' b'' [])
     = (''a'', ''EXACT'', ''b'')"
  by code_simp

text \<open>
  C10. On a string that begins with a substring of the shape quoted text, type token,
  optional subtype, bracketed source, the match covers that prefix only: the trailing
  characters \<open>rest\<close> after the first closing bracket are what the match leaves unread,
  and the three components returned are those of the prefix alone.
\<close>

theorem trailing_text_ignored:
  assumes "synonym_parts_ok txt ws1 ty sub ws3 src"
  shows "match_synonym (synonym_string txt ws1 ty sub ws3 src rest)
           = Some (txt, ty, map_option snd sub, src, rest)
       \<and> extract_synonym_details (synonym_string txt ws1 ty sub ws3 src rest)
           = extract_synonym_details (synonym_string txt ws1 ty sub ws3 src [])"
  using assms by (simp add: match_synonym_shape extract_shape)

theorem trailing_text_ignored_witness:
  "extract_synonym_details (synonym_string ''Seizure'' '' '' ''EXACT'' None '' '' ''ORCID:1'' '' {comment} [x]'')
   = extract_synonym_details (synonym_string ''Seizure'' '' '' ''EXACT'' None '' '' ''ORCID:1'' [])"
proof -
  have ok: "synonym_parts_ok ''Seizure'' '' '' ''EXACT'' None '' '' ''ORCID:1''"
    by (simp add: synonym_parts_ok_def is_space_def is_word_def)
  show ?thesis using trailing_text_ignored[OF ok] by simp
qed

subsection \<open>The streaming link parser\<close>

lemma split_first_mem: "c \<in> set t \<Longrightarrow> split_first [c] t \<noteq> None"
  by (induction t) (auto simp: startswith_def split: option.splits)

lemma local_wf: "wf_tag t \<Longrightarrow> local t = Inr (local_name t)"
  using split_first_mem[of "CHR ''}''" t]
  by (auto simp: wf_tag_def local_def local_name_def split: option.splits)

lemma first_child_wf:
  "list_all (\<lambda>c. wf_tag (tag c)) cs \<Longrightarrow>
   first_child cs name = Inr (List.find (\<lambda>c. local_name (tag c) = name) cs)"
  by (induction cs) (auto simp: local_wf)

lemma find_first_wf: "wf_children e \<Longrightarrow> find_first (Some e) name = Inr (child_named e name)"
  by (simp add: find_first_def child_named_def wf_children_def first_child_wf)

lemma strip_Nil [simp]: "strip [] = []"
  by (simp add: strip_def)

lemma find_text_wf: "wf_children e \<Longrightarrow> find_text (Some e) name [] = Inr (child_text e name)"
  by (auto simp: find_text_def find_first_wf ebind_def child_text_def split: option.splits)

lemma or_text_Inr: "or_text (Inr a) b = (if a \<noteq> [] then Inr a else b)"
  by (simp add: or_text_def ebind_def)

lemma child_named_mem: "child_named e name = Some c \<Longrightarrow> c \<in> set (children e)"
  by (auto simp: child_named_def find_Some_iff)

lemma wf_child: "wf_two_levels e \<Longrightarrow> child_named e name = Some c \<Longrightarrow> wf_children c"
  using child_named_mem[of e name c] by (auto simp: wf_two_levels_def list_all_iff)

lemma resolve_orpha_wf:
  assumes "wf_two_levels e"
  shows "resolve_orpha e = Inr (case child_named e ''Disorder'' of None \<Rightarrow> None
                                 | Some d \<Rightarrow> Some (first_nonempty (map (child_text d) [''OrphaNumber'', ''OrphaCode''])))"
proof (cases "child_named e ''Disorder''")
  case None
  then show ?thesis using assms
    by (simp add: resolve_orpha_def find_first_wf wf_two_levels_def ebind_def)
next
  case (Some d)
  then have "wf_children d" using assms by (rule wf_child[rotated])
  then show ?thesis using assms Some
    by (simp add: resolve_orpha_def find_first_wf wf_two_levels_def ebind_def find_text_wf or_text_Inr)
qed

lemma resolve_hp_id_wf:
  assumes "wf_two_levels e"
  shows "resolve_hp_id e = Inr (case child_named e ''HPO'' of None \<Rightarrow> None
             | Some h \<Rightarrow> Some (first_nonempty (map (child_text h) [''HPOId'', ''HPO_ID'', ''Id'', ''ID''])))"
proof (cases "child_named e ''HPO''")
  case None
  then show ?thesis using assms
    by (simp add: resolve_hp_id_def find_first_wf wf_two_levels_def ebind_def)
next
  case (Some d)
  then have "wf_children d" using assms by (rule wf_child[rotated])
  then show ?thesis using assms Some
    by (simp add: resolve_hp_id_def find_first_wf wf_two_levels_def ebind_def find_text_wf or_text_Inr)
qed

lemma resolve_freq_wf:
  assumes "wf_two_levels e"
  shows "resolve_freq e = Inr (case code_freq_block e of None \<Rightarrow> None
             | Some f \<Rightarrow> Some (first_nonempty [child_text f ''Name'', strip (text_or_empty f)]))"
proof -
  have wc: "wf_children e" using assms by (simp add: wf_two_levels_def)
  have fb: "ebind (find_first (Some e) ''Frequency'') (\<lambda>f.
              if truthy f then Inr f else find_first (Some e) ''HPOFrequency'') = Inr (code_freq_block e)"
    using wc by (auto simp: find_first_wf ebind_def truthy_def code_freq_block_def split: option.splits)
  show ?thesis
  proof (cases "code_freq_block e")
    case None
    then show ?thesis unfolding resolve_freq_def fb by (simp add: ebind_def)
  next
    case (Some f)
    then have "\<exists>n. child_named e n = Some f"
      by (auto simp: code_freq_block_def split: option.splits if_splits)
    then have "wf_children f" using assms wf_child by blast
    then show ?thesis using Some unfolding resolve_freq_def fb
      by (simp add: ebind_def find_text_wf)
  qed
qed

lemma link_of_wf:
  assumes "wf_two_levels e"
  shows "link_of upper e = Inr (code_link upper e)"
  by (auto simp: link_of_def resolve_orpha_wf[OF assms] resolve_hp_id_wf[OF assms]
      resolve_freq_wf[OF assms] ebind_def code_link_def spec_source_id_def spec_target_id_def
      code_frequency_def normalize_hp_def split: option.splits)

lemma tag_released [simp]: "tag (released e) = tag e"
  by (cases e) simp

lemma find_map_released:
  "List.find (\<lambda>c. local_name (tag c) = n) (map released cs)
   = map_option released (List.find (\<lambda>c. local_name (tag c) = n) cs)"
  by (induction cs) auto

lemma child_named_released:
  "child_named (Element t a x (map released cs)) n = map_option released (child_named (Element t a x cs) n)"
  by (simp add: child_named_def find_map_released)

lemma child_named_name: "child_named e n = Some c \<Longrightarrow> local_name (tag c) = n"
  by (auto simp: child_named_def find_Some_iff)

lemma released_keeps:
  assumes "local_name (tag e) \<noteq> ''DisorderHPOTermAssociation''"
  shows "released e = Element (tag e) (attrib e) (elem_text e) (map released (children e))"
  using assms by (cases e) simp

lemma text_released:
  "local_name (tag e) \<noteq> ''DisorderHPOTermAssociation'' \<Longrightarrow> text_or_empty (released e) = text_or_empty e"
  by (simp add: released_keeps text_or_empty_def)

lemma child_text_released:
  assumes "local_name (tag d) \<noteq> ''DisorderHPOTermAssociation''" and "n \<noteq> ''DisorderHPOTermAssociation''"
  shows "child_text (released d) n = child_text d n"
proof -
  have "child_named (released d) n = map_option released (child_named d n)"
    using child_named_released[of "tag d" "attrib d" "elem_text d" "children d" n]
    by (simp add: released_keeps[OF assms(1)])
  then show ?thesis using assms(2)
    by (cases "child_named d n") (auto simp: child_text_def text_released dest: child_named_name)
qed

lemma spec_source_id_released:
  "spec_source_id (Element t a x (map released cs)) = spec_source_id (Element t a x cs)"
proof (cases "child_named (Element t a x cs) ''Disorder''")
  case None
  then show ?thesis by (simp add: spec_source_id_def child_named_released)
next
  case (Some d)
  then have "local_name (tag d) \<noteq> ''DisorderHPOTermAssociation''"
    using child_named_name by fastforce
  then show ?thesis using Some
    by (simp add: spec_source_id_def child_named_released child_text_released)
qed

lemma spec_target_id_released:
  "spec_target_id (Element t a x (map released cs)) = spec_target_id (Element t a x cs)"
proof (cases "child_named (Element t a x cs) ''HPO''")
  case None
  then show ?thesis by (simp add: spec_target_id_def child_named_released)
next
  case (Some d)
  then have "local_name (tag d) \<noteq> ''DisorderHPOTermAssociation''"
    using child_named_name by fastforce
  then show ?thesis using Some
    by (simp add: spec_target_id_def child_named_released child_text_released)
qed

lemma code_freq_block_released:
  "code_freq_block (Element t a x (map released cs))
   = map_option released (code_freq_block (Element t a x cs))"
proof (cases "child_named (Element t a x cs) ''Frequency''")
  case None
  then show ?thesis by (simp add: code_freq_block_def child_named_released)
next
  case (Some f)
  then have "local_name (tag f) \<noteq> ''DisorderHPOTermAssociation''"
    using child_named_name by fastforce
  then have "children (released f) = map released (children f)"
    by (simp add: released_keeps)
  then show ?thesis using Some
    by (simp add: code_freq_block_def child_named_released)
qed

lemma code_freq_block_name:
  "code_freq_block e = Some f \<Longrightarrow> local_name (tag f) \<noteq> ''DisorderHPOTermAssociation''"
  by (auto simp: code_freq_block_def split: option.splits if_splits dest: child_named_name)

lemma code_frequency_released:
  "code_frequency (Element t a x (map released cs)) = code_frequency (Element t a x cs)"
proof (cases "code_freq_block (Element t a x cs)")
  case None
  then show ?thesis by (simp add: code_frequency_def code_freq_block_released)
next
  case (Some f)
  then have "local_name (tag f) \<noteq> ''DisorderHPOTermAssociation''"
    by (rule code_freq_block_name)
  then show ?thesis using Some
    by (simp add: code_frequency_def code_freq_block_released child_text_released text_released)
qed

lemma code_link_released:
  "code_link upper (Element t a x (map released cs)) = code_link upper (Element t a x cs)"
  by (simp add: code_link_def spec_source_id_released spec_target_id_released code_frequency_released)

lemma wf_tree_Element: "wf_tree (Element t a x cs) \<longleftrightarrow> wf_tag t \<and> list_all wf_tree cs"
  by (auto simp: wf_tree_def list_all_iff)

lemma iter_self: "e \<in> set (iter e)"
  by (cases e) simp

lemma wf_tree_tag: "wf_tree e \<Longrightarrow> wf_tag (tag e)"
  using iter_self[of e] by (auto simp: wf_tree_def list_all_iff)

lemma wf_tree_children: "wf_tree e \<Longrightarrow> wf_children e"
  by (cases e) (auto simp: wf_tree_Element wf_children_def list_all_iff dest: wf_tree_tag)

lemma wf_children_released: "wf_tree e \<Longrightarrow> wf_children (released e)"
  by (cases e) (auto simp: wf_tree_Element wf_children_def list_all_iff dest: wf_tree_tag)

lemma wf_two_levels_released:
  "list_all wf_tree cs \<Longrightarrow> wf_two_levels (Element t a x (map released cs))"
proof -
  assume a: "list_all wf_tree cs"
  have "wf_children (Element t a x (map released cs))"
    using a by (auto simp: wf_children_def list_all_iff dest: wf_tree_tag)
  moreover have "list_all wf_children (map released cs)"
    using a by (auto simp: list_all_iff wf_children_released)
  ultimately show ?thesis by (simp add: wf_two_levels_def)
qed

lemma concat_filter_concat:
  "concat (map g (filter P (concat (map h cs)))) = concat (map (\<lambda>c. concat (map g (filter P (h c)))) cs)"
  by (induction cs) auto

lemma code_rows_Element:
  "code_rows upper (Element t a x cs) =
     concat (map (code_rows upper) cs)
     @ (if local_name t = ''DisorderHPOTermAssociation''
        then (case code_link upper (Element t a x cs) of None \<Rightarrow> [] | Some r \<Rightarrow> [r]) else [])"
proof -
  have "concat (map (code_rows upper) cs)
      = concat (map (\<lambda>e. case code_link upper e of None \<Rightarrow> [] | Some r \<Rightarrow> [r])
                 (filter is_association (concat (map postorder cs))))"
    unfolding concat_filter_concat by (simp add: code_rows_def[abs_def])
  then show ?thesis by (simp add: code_rows_def is_association_def)
qed

lemma stream_wf:
  "wf_tree e \<Longrightarrow> stream upper e = Inr (code_rows upper e, released e)"
  "list_all wf_tree es \<Longrightarrow>
     stream_list upper es = Inr (concat (map (code_rows upper) es), map released es)"
proof (induction upper e and upper es rule: stream_stream_list.induct)
  case (1 upper t a x cs)
  then have wt: "wf_tag t" and wc: "list_all wf_tree cs" by (simp_all add: wf_tree_Element)
  have sl: "stream_list upper cs = Inr (concat (map (code_rows upper) cs), map released cs)"
    using 1(1) wc by simp
  have lk: "link_of upper (Element t a x (map released cs)) = Inr (code_link upper (Element t a x cs))"
    using link_of_wf[OF wf_two_levels_released[OF wc]] by (simp add: code_link_released)
  have ev: "end_event upper (Element t a x (map released cs))
      = Inr ((if local_name t = ''DisorderHPOTermAssociation''
              then (case code_link upper (Element t a x cs) of None \<Rightarrow> [] | Some r \<Rightarrow> [r]) else []),
             released (Element t a x cs))"
    by (simp add: end_event_def local_wf[OF wt] ebind_def lk clear_def)
  show ?case by (simp add: sl ev code_rows_Element del: released.simps)
next
  case (2 upper)
  then show ?case by simp
next
  case (3 upper c cs)
  then show ?case by simp
qed

lemma same_local_sel:
  "same_local e e' \<Longrightarrow> local_name (tag e) = local_name (tag e') \<and> attrib e = attrib e'
     \<and> elem_text e = elem_text e' \<and> list_all2 same_local (children e) (children e')"
  by (cases e; cases e') simp

lemma same_local_find:
  "list_all2 same_local cs ds \<Longrightarrow>
   rel_option same_local (List.find (\<lambda>c. local_name (tag c) = n) cs)
                         (List.find (\<lambda>c. local_name (tag c) = n) ds)"
proof (induction cs ds rule: list_all2_induct)
  case (Cons c cs d ds)
  then show ?case using same_local_sel[of c d] by auto
qed simp

lemma same_local_child_named:
  "same_local e e' \<Longrightarrow> rel_option same_local (child_named e n) (child_named e' n)"
  unfolding child_named_def using same_local_sel[of e e'] same_local_find by blast

lemma same_local_text: "same_local e e' \<Longrightarrow> text_or_empty e = text_or_empty e'"
  using same_local_sel[of e e'] by (simp add: text_or_empty_def)

lemma same_local_child_text: "same_local e e' \<Longrightarrow> child_text e n = child_text e' n"
  using same_local_child_named[of e e' n]
  by (auto simp: child_text_def option_rel_Some1 same_local_text split: option.splits elim: option.rel_cases)

lemma same_local_source_id: "same_local e e' \<Longrightarrow> spec_source_id e = spec_source_id e'"
  using same_local_child_named[of e e' "''Disorder''"]
  by (auto simp: spec_source_id_def same_local_child_text elim!: option.rel_cases)

lemma same_local_target_id: "same_local e e' \<Longrightarrow> spec_target_id e = spec_target_id e'"
  using same_local_child_named[of e e' "''HPO''"]
  by (auto simp: spec_target_id_def same_local_child_text elim!: option.rel_cases)

lemma same_local_list_Nil: "list_all2 same_local cs ds \<Longrightarrow> (cs = []) = (ds = [])"
  by (cases cs; cases ds) simp_all

lemma same_local_frequency_block:
  assumes "same_local e e'"
  shows "rel_option same_local (code_freq_block e) (code_freq_block e')"
proof -
  have h: "rel_option same_local (child_named e ''HPOFrequency'') (child_named e' ''HPOFrequency'')"
    using assms by (rule same_local_child_named)
  have f: "rel_option same_local (child_named e ''Frequency'') (child_named e' ''Frequency'')"
    using assms by (rule same_local_child_named)
  from f show ?thesis
  proof (cases rule: option.rel_cases)
    case None
    then show ?thesis using h by (simp add: code_freq_block_def)
  next
    case (Some f1 f2)
    then have "(children f1 = []) = (children f2 = [])"
      using same_local_sel[of f1 f2] same_local_list_Nil by blast
    then show ?thesis using Some h by (simp add: code_freq_block_def)
  qed
qed

lemma same_local_frequency: "same_local e e' \<Longrightarrow> code_frequency e = code_frequency e'"
  using same_local_frequency_block[of e e']
  by (auto simp: code_frequency_def same_local_child_text same_local_text elim!: option.rel_cases)

lemma same_local_link: "same_local e e' \<Longrightarrow> code_link upper e = code_link upper e'"
  by (simp add: code_link_def same_local_source_id same_local_target_id same_local_frequency)

lemma same_local_rows: "same_local e e' \<Longrightarrow> code_rows upper e = code_rows upper e'"
proof (induction e e' rule: same_local.induct)
  case (1 t a x cs t' a' x' cs')
  have lk: "code_link upper (Element t a x cs) = code_link upper (Element t' a' x' cs')"
    using 1(2) by (rule same_local_link)
  from 1(2) have l2: "list_all2 same_local cs cs'" by simp
  have "list_all2 (\<lambda>c d. code_rows upper c = code_rows upper d) cs cs'"
    using l2 1(1) by (auto simp: list_all2_conv_all_nth)
  then have "map (code_rows upper) cs = map (code_rows upper) cs'"
    by (induction cs cs' rule: list_all2_induct) simp_all
  then show ?case using 1(2) lk by (simp add: code_rows_Element)
qed

lemma convert_xml4_wf:
  "wf_tree root \<Longrightarrow> convert_xml4 upper root = Inr (code_rows upper root, released root)"
  by (simp add: convert_xml4_def stream_wf)


lemma example_document_wf: "wf_tree example_document"
  by (simp add: example_document_def wf_tree_def wf_tag_def)

lemma example_document_rows:
  "concat (map (\<lambda>e. case code_link ascii_upper e of None \<Rightarrow> [] | Some r \<Rightarrow> [r])
                               (filter is_association (postorder example_document)))
     = [\<lparr>start_orpha_id = ''ORPHA:166024'', end_hp_id = ''HP:0001250'', frequency = ''Frequent''\<rparr>]"
  by code_simp

text \<open>
  C5. The claim asks for a row with \<open>"ORPHA:"\<close> and the source identifier, the normalised
  target identifier and the resolved frequency qualifier, empty only when none resolves.
  The code breaks it on an association whose Frequency child carries the qualifier as its
  text and has no child of its own: in
  \<open>find_first(elem, "Frequency") or find_first(elem, "HPOFrequency")\<close> the Element without
  children counts as false, the block is passed over, and the row is written with an
  empty frequency, although the next statement of the source falls back on the text of
  the block. For the source id 166024 with the term id HP_0001250 the row has
  \<open>ORPHA:166024\<close> and \<open>HP:0001250\<close> as claimed, and an empty frequency where the claim
  asks for \<open>Frequent\<close>.
\<close>

theorem frequency_text_dropped:
  "map_sum id fst (convert_xml4 ascii_upper frequency_text_document)
     = Inr [\<lparr>start_orpha_id = ''ORPHA:166024'', end_hp_id = ''HP:0001250'', frequency = []\<rparr>]
   \<and> spec_link ascii_upper frequency_text_association
     = Some \<lparr>start_orpha_id = ''ORPHA:166024'', end_hp_id = ''HP:0001250'',
             frequency = ''Frequent''\<rparr>"
  by code_simp




lemma same_local_lang_child:
  "list_all2 same_local cs ds \<Longrightarrow> list_all (\<lambda>c. wf_tag (tag c)) cs
   \<Longrightarrow> list_all (\<lambda>c. wf_tag (tag c)) ds
   \<Longrightarrow> lang_child cs n l d = lang_child ds n l d"
proof (induction cs ds rule: list_all2_induct)
  case Nil
  then show ?case by simp
next
  case (Cons c cs e es)
  then show ?case
    using same_local_sel[of c e] same_local_text[of c e] by (auto simp: local_wf)
qed

lemma same_local_find_text:
  assumes "wf_children d1" and "wf_children d2" and "same_local d1 d2"
  shows "find_text (Some d1) n d = find_text (Some d2) n d"
  using same_local_child_named[OF assms(3), of n]
  by (auto simp: find_text_def find_first_wf[OF assms(1)] find_first_wf[OF assms(2)] ebind_def
      same_local_text elim!: option.rel_cases)

text \<open>
  C8, as amended. The helpers \<open>find_first\<close>, \<open>find_text\<close> and \<open>find_text_lang\<close> match
  children by local tag name, and the streaming link parser looks children up through
  them only: for two documents with parser-written tags that differ only in the namespace
  prefixes of their tags, each lookup finds corresponding children and the streaming
  conversion writes the same rows.
\<close>

theorem streaming_rows_ignore_namespaces:
  assumes "wf_tree d1" and "wf_tree d2" and "same_local d1 d2"
  shows "map_sum id fst (convert_xml4 upper d1) = map_sum id fst (convert_xml4 upper d2)
       \<and> rel_sum (=) (rel_option same_local) (find_first (Some d1) n) (find_first (Some d2) n)
       \<and> find_text (Some d1) n dflt = find_text (Some d2) n dflt
       \<and> find_text_lang d1 n lang dflt = find_text_lang d2 n lang dflt"
proof -
  have w: "wf_children d1" "wf_children d2" using assms(1,2) by (simp_all add: wf_tree_children)
  have "find_text_lang d1 n lang dflt = find_text_lang d2 n lang dflt"
    unfolding find_text_lang_def
    using same_local_sel[OF assms(3)] w
    by (intro same_local_lang_child) (simp_all add: wf_children_def)
  then show ?thesis
    using assms w
    by (simp add: convert_xml4_wf same_local_rows same_local_child_named find_first_wf
        same_local_find_text)
qed

theorem streaming_rows_ignore_namespaces_witness:
  "map_sum id fst (convert_xml4 ascii_upper namespaced_example)
   = Inr [\<lparr>start_orpha_id = ''ORPHA:166024'', end_hp_id = ''HP:0001250'', frequency = ''Frequent''\<rparr>]"
proof -
  have w: "wf_tree namespaced_example"
    by (simp add: namespaced_example_def wf_tree_def wf_tag_def)
  have s: "same_local namespaced_example example_document"
    by code_simp
  have "map_sum id fst (convert_xml4 ascii_upper namespaced_example)
        = map_sum id fst (convert_xml4 ascii_upper example_document)"
    using streaming_rows_ignore_namespaces[OF w example_document_wf s] by blast
  also have "\<dots> = Inr [\<lparr>start_orpha_id = ''ORPHA:166024'', end_hp_id = ''HP:0001250'', frequency = ''Frequent''\<rparr>]"
    by (simp add: convert_xml4_wf[OF example_document_wf] code_rows_def example_document_rows)
  finally show ?thesis .
qed

text \<open>
  C8 as stated fails for the single-entity parser: with a namespace on its tags a document
  has no element with tag \<open>Disorder\<close> and the conversion raises, without namespace it
  gives one row.
\<close>

theorem namespace_counterexample:
  "same_local namespaced_document plain_document
   \<and> convert_xml1 namespaced_document = Inl (CustomException NoDisorderElements)
   \<and> convert_xml1 plain_document
       = Inr [[''17601'', ''166024'', [], [], [], [], [], [], []]]"
  by code_simp

subsection \<open>The single-entity flattener\<close>

lemma writerow_disorder:
  "writerow xml1_fieldnames (parse_disorder_xml1 d)
   = Inr (map (\<lambda>f. the (map_of (parse_disorder_xml1 d) f)) xml1_fieldnames)"
  by (simp add: writerow_def xml1_fieldnames_def parse_disorder_xml1_def)

lemma write_disorders_total:
  "write_disorders ds
   = Inr (map (\<lambda>d. map (\<lambda>f. the (map_of (parse_disorder_xml1 d) f)) xml1_fieldnames) ds)"
  by (induction ds) (simp_all add: writerow_disorder ebind_def)

text \<open>
  C6. The single-entity conversion writes exactly one row per Disorder element that
  \<open>root.findall('.//Disorder')\<close> finds, in document order, and when it finds none it
  raises its typed error before the output file is opened, so that no file with only a
  header is produced.
\<close>

theorem one_row_per_disorder:
  "(findall_descendants root ''Disorder'' = [] \<longrightarrow>
      convert_xml1 root = Inl (CustomException NoDisorderElements))
   \<and> (findall_descendants root ''Disorder'' \<noteq> [] \<longrightarrow>
        (\<exists>written. convert_xml1 root = Inr written
           \<and> length written = length (findall_descendants root ''Disorder'')
           \<and> written = map (\<lambda>d. map (\<lambda>f. the (map_of (parse_disorder_xml1 d) f)) xml1_fieldnames)
                            (findall_descendants root ''Disorder'')))"
  by (simp add: convert_xml1_def Let_def write_disorders_total)

theorem one_row_per_disorder_witness:
  "convert_xml1 (Element ''JDBOR'' [] None [Element ''DisorderList'' [] None []])
     = Inl (CustomException NoDisorderElements)
   \<and> map_sum id length (convert_xml1
        (Element ''JDBOR'' [] None [Element ''DisorderList'' [] None
           [Element ''Disorder'' [(''id'', ''1'')] None [Element ''Disorder'' [(''id'', ''2'')] None []],
            Element ''Disorder'' [(''id'', ''3'')] None []]])) = Inr 3"
proof -
  let ?a = "Element ''JDBOR'' [] None [Element ''DisorderList'' [] None []]"
  let ?b = "Element ''JDBOR'' [] None [Element ''DisorderList'' [] None
           [Element ''Disorder'' [(''id'', ''1'')] None [Element ''Disorder'' [(''id'', ''2'')] None []],
            Element ''Disorder'' [(''id'', ''3'')] None []]]"
  have a: "findall_descendants ?a ''Disorder'' = []" by (simp add: findall_descendants_def)
  have b: "length (findall_descendants ?b ''Disorder'') = 3" by (simp add: findall_descendants_def)
  then have b': "findall_descendants ?b ''Disorder'' \<noteq> []" by auto
  show ?thesis
    using one_row_per_disorder[of ?a] one_row_per_disorder[of ?b] a b b' by auto
qed

subsection \<open>The gene-association flattener\<close>











lemma keys_update [simp]: "keys (AList.update k v r) = insert k (keys r)"
  by (simp add: keys_def dom_update)















subsection \<open>The annotation-file reader\<close>

lemma data_start_loop_meta:
  "\<forall>l\<in>set meta. startswith l ''#'' \<Longrightarrow> \<not> startswith header ''#''
   \<Longrightarrow> data_start_loop (meta @ header # data) i = i + length meta"
  by (induction meta arbitrary: i) simp_all

lemma parse_metadata_loop_meta:
  "\<forall>l\<in>set meta. startswith l ''#'' \<Longrightarrow> \<not> startswith header ''#''
   \<Longrightarrow> parse_metadata_loop (meta @ header # data) md = parse_metadata_loop meta md"
  by (induction meta arbitrary: md) (simp_all split: option.splits)

lemma parse_hpoa_line_cases:
  "parse_hpoa_line l = (if twelve_fields_stripped l then Some (hpoa_row l) else None)"
  by (simp add: parse_hpoa_line_def twelve_fields_stripped_def hpoa_row_def Let_def)

lemma hpoa_row_nonempty: "twelve_fields_stripped l \<Longrightarrow> hpoa_row l \<noteq> []"
  by (cases "split_all (CHR 0x09) (strip l)")
     (auto simp: twelve_fields_stripped_def hpoa_row_def hpoa_fieldnames_def)

lemma annotation_fold:
  "foldl annotation_step (w, t, v) data
   = (w @ map hpoa_row (filter twelve_fields_stripped data), t + length data,
      v + length (filter twelve_fields_stripped data))"
  by (induction data arbitrary: w t v)
     (simp_all add: annotation_step_def parse_hpoa_line_cases hpoa_row_nonempty)

lemma split_first_colon:
  "CHR '':'' \<notin> set k \<Longrightarrow> split_first '':'' (k @ CHR '':'' # v) = Some (k, v)"
  by (induction k) (auto simp: startswith_def)

text \<open>
  C7, as amended. For a file made of metadata lines (each starting with \<open>#\<close>), a header
  line and data lines, the conversion does not abort: it writes one row for each data
  line whose stripped text splits into exactly twelve tab-separated fields, in order, and
  skips every other data line; it counts all data lines in \<open>total_rows\<close> and the rows
  written in \<open>valid_rows\<close>; the metadata are those of the lines before the header, none
  of which is read as a data line, and a metadata line \<open>#key:value\<close> gives the pair of
  the stripped text before the first colon and the stripped, unquoted text after it.
\<close>

theorem annotation_lines:
  assumes "\<forall>l\<in>set meta. startswith l ''#''" and "\<not> startswith header ''#''"
  shows "convert_hpoa (meta @ header # data)
         = Inr \<lparr>metadata = parse_metadata meta,
                 rows = map hpoa_row (filter twelve_fields_stripped data),
                 total_rows = length data,
                 valid_rows = length (filter twelve_fields_stripped data)\<rparr>
       \<and> (CHR '':'' \<notin> set k \<longrightarrow>
            parse_metadata [CHR ''#'' # k @ CHR '':'' # v] = [(strip k, strip_quotes (strip v))])"
proof -
  have pm: "parse_metadata_loop meta [] = parse_metadata meta" by (simp add: parse_metadata_def)
  have "parse_metadata (meta @ header # data) = parse_metadata meta"
    using parse_metadata_loop_meta[OF assms] by (simp add: parse_metadata_def)
  moreover have "data_start_loop (meta @ header # data) 0 = length meta"
    using data_start_loop_meta[OF assms, of data 0] by simp
  ultimately have "convert_hpoa (meta @ header # data)
         = Inr \<lparr>metadata = parse_metadata meta,
                 rows = map hpoa_row (filter twelve_fields_stripped data),
                 total_rows = length data,
                 valid_rows = length (filter twelve_fields_stripped data)\<rparr>"
    by (simp add: convert_hpoa_def Let_def annotation_fold)
  moreover have "CHR '':'' \<notin> set k \<longrightarrow>
            parse_metadata [CHR ''#'' # k @ CHR '':'' # v] = [(strip k, strip_quotes (strip v))]"
    by (simp add: parse_metadata_def split_first_colon startswith_def)
  ultimately show ?thesis by simp
qed

theorem annotation_lines_witness:
  "convert_hpoa [''#version: 2024'', ''#description: \"HPO\"'', example_header, example_line,
                 ''short line'', example_line]
   = Inr \<lparr>metadata = [(''version'', ''2024''), (''description'', ''HPO'')],
           rows = [hpoa_row example_line, hpoa_row example_line],
           total_rows = 3, valid_rows = 2\<rparr>
   \<and> hpoa_row example_line
     = [(''database_id'', ''OMIM:1''), (''disease_name'', ''n''), (''qualifier'', []),
        (''hpo_id'', ''HP:1''), (''reference'', ''r''), (''evidence'', ''TAS''), (''onset'', []),
        (''frequency'', []), (''sex'', []), (''modifier'', []), (''aspect'', ''P''),
        (''biocuration'', ''HPO:x'')]"
proof -
  let ?meta = "[''#version: 2024'', ''#description: \"HPO\"'']"
  let ?data = "[example_line, ''short line'', example_line]"
  have m: "\<forall>l\<in>set ?meta. startswith l ''#''" by (simp add: startswith_def)
  have h: "\<not> startswith example_header ''#''" by (simp add: startswith_def example_header_def)
  have t: "twelve_fields_stripped example_line" "\<not> twelve_fields_stripped ''short line''"
    by code_simp+
  have pm: "parse_metadata ?meta = [(''version'', ''2024''), (''description'', ''HPO'')]"
    by code_simp
  have r: "hpoa_row example_line
     = [(''database_id'', ''OMIM:1''), (''disease_name'', ''n''), (''qualifier'', []),
        (''hpo_id'', ''HP:1''), (''reference'', ''r''), (''evidence'', ''TAS''), (''onset'', []),
        (''frequency'', []), (''sex'', []), (''modifier'', []), (''aspect'', ''P''),
        (''biocuration'', ''HPO:x'')]"
    by code_simp
  have "convert_hpoa (?meta @ example_header # ?data)
         = Inr \<lparr>metadata = parse_metadata ?meta,
                 rows = map hpoa_row (filter twelve_fields_stripped ?data),
                 total_rows = length ?data,
                 valid_rows = length (filter twelve_fields_stripped ?data)\<rparr>"
    using annotation_lines[OF m h, of ?data] by (rule conjunct1)
  then have "convert_hpoa (?meta @ example_header # ?data)
         = Inr \<lparr>metadata = [(''version'', ''2024''), (''description'', ''HPO'')],
           rows = [hpoa_row example_line, hpoa_row example_line],
           total_rows = 3, valid_rows = 2\<rparr>"
    unfolding pm using t by simp
  then show ?thesis using r by simp
qed

text \<open>
  C7 as stated fails on a data line that has twelve tab-separated fields of which the last
  is empty: \<open>line.strip()\<close> removes the trailing tab with the line feed, eleven fields
  are left, and the line is skipped.
\<close>

theorem annotation_lines_counterexample:
  "twelve_fields trailing_empty_line
   \<and> convert_hpoa [example_header, trailing_empty_line]
     = Inr \<lparr>metadata = [], rows = [], total_rows = 1, valid_rows = 0\<rparr>"
  by code_simp

end
